theory Spec2Isabelle
  imports Complex_Main "HOL-Library.Multiset"
begin

section \<open>Python values and exceptions\<close>

text \<open>
  The monitor is a Python program (\<^verbatim>\<open>src/app.py\<close>). Its collectors build
  dictionaries of numbers and strings from what \<^verbatim>\<open>psutil\<close> reports, and the
  byte formatter accepts any Python object. Exceptions are values of type \<open>error\<close>;
  a function that can raise returns \<open>error + 'a\<close>, with \<open>Inl\<close> for the exception.

  \<^verbatim>\<open>PermissionError\<close> is a subclass of \<^verbatim>\<open>OSError\<close>, and
  \<^verbatim>\<open>psutil.ZombieProcess\<close> a subclass of \<^verbatim>\<open>psutil.NoSuchProcess\<close>;
  every other subclass of \<^verbatim>\<open>OSError\<close> is represented by \<open>OSError\<close> itself.
\<close>

datatype error =
    PermissionError | OSError
  | NoSuchProcess | AccessDenied | ZombieProcess
  | KeyError | AttributeError
  | OverflowError | ValueError | TypeError
  | OtherError string

text \<open>
  A Python float is an IEEE 754 binary64 value: a finite value \<open>(-1)^s * m * 2^e\<close>
  given by its sign, an integer significand \<open>0 \<le> m < 2^53\<close> and an exponent
  \<open>-1074 \<le> e \<le> 971\<close>, or an infinity, or NaN. Zero keeps its sign.
\<close>

datatype double = Double bool int int

datatype pyfloat = Finite double | Inf bool | NaN

datatype pyval =
    PyNone
  | PyBool bool
  | PyInt int
  | PyFloat pyfloat
  | PyStr string
  | PyList "pyval list"
  | PyDict "(string \<times> pyval) list"

fun dval :: "double \<Rightarrow> rat" where
  "dval (Double s m e) = (if s then - 1 else 1) * of_int m * (2 powi e)"

fun wf_double :: "double \<Rightarrow> bool" where
  "wf_double (Double s m e) \<longleftrightarrow> 0 \<le> m \<and> m < 2 ^ 53 \<and> - 1074 \<le> e \<and> e \<le> 971"

section \<open>Correctly rounded conversions\<close>

text \<open>
  CPython rounds to nearest, ties to even, in three places the formatter relies on:
  true division of an \<^verbatim>\<open>int\<close> (\<^verbatim>\<open>long_true_divide\<close>), conversion of an
  \<^verbatim>\<open>int\<close> to \<^verbatim>\<open>float\<close>, and the decimal rendering of a float
  (\<^verbatim>\<open>format_float_short\<close> on top of \<^verbatim>\<open>_Py_dg_dtoa\<close>).
\<close>

definition round_half_even :: "rat \<Rightarrow> int" where
  "round_half_even x =
     (let f = \<lfloor>x\<rfloor>; r = x - of_int f
      in if r < 1 / 2 then f
         else if 1 / 2 < r then f + 1
         else if even f then f else f + 1)"

text \<open>Python's \<^verbatim>\<open>int.bit_length\<close>.\<close>

function bit_length :: "int \<Rightarrow> int" where
  "bit_length n = (if n \<le> 0 then 0 else 1 + bit_length (n div 2))"
  by pat_completeness auto
termination
  by (relation "measure nat") auto

declare bit_length.simps [simp del]

text \<open>The binary exponent \<open>\<lfloor>log\<^sub>2 q\<rfloor>\<close> of a positive rational.\<close>

definition floor_log2 :: "rat \<Rightarrow> int" where
  "floor_log2 q =
     (let (p, d) = quotient_of q;
          k = bit_length p - bit_length d
      in if 2 powi k \<le> q then k else k - 1)"

text \<open>
  The double nearest to the rational \<open>q \<ge> 0\<close>, with sign \<open>s\<close>: 53 significant bits
  for a normal result, the fixed quantum \<open>2^-1074\<close> below \<open>2^-1022\<close>. A
  significand that rounds up to \<open>2^53\<close> is renormalised. The result overflows
  when it is \<open>2^1024\<close> or more, that is, when its exponent exceeds 971.
\<close>

definition nearest_double :: "bool \<Rightarrow> rat \<Rightarrow> pyfloat" where
  "nearest_double s q =
     (if q = 0 then Finite (Double s 0 0)
      else
        let e = max (floor_log2 q) (- 1022);
            m = round_half_even (q / (2 powi (e - 52)));
            (m', e') = (if m = 2 ^ 53 then (2 ^ 52, e - 51) else (m, e - 52))
        in if 971 < e' then Inf s else Finite (Double s m' e'))"

text \<open>
  \<^verbatim>\<open>n / d\<close> for an \<^verbatim>\<open>int\<close> \<open>n\<close> and a positive \<^verbatim>\<open>int\<close> \<open>d\<close>:
  correctly rounded, and \<^verbatim>\<open>OverflowError\<close> ("integer division result too large for
  a float") when the result does not fit. \<^verbatim>\<open>float(n)\<close> is the case \<open>d = 1\<close>
  ("int too large to convert to float").
\<close>

definition int_truediv :: "int \<Rightarrow> int \<Rightarrow> error + pyfloat" where
  "int_truediv n d =
     (case nearest_double (n < 0) (\<bar>of_int n\<bar> / of_int d) of
        Inf _ \<Rightarrow> Inl OverflowError
      | f \<Rightarrow> Inr f)"

definition float_of_int :: "int \<Rightarrow> error + pyfloat" where
  "float_of_int n = int_truediv n 1"

text \<open>
  \<^verbatim>\<open>x / 1024\<close> for a float \<open>x\<close>: dividing by a power of two only lowers the
  exponent, so the quotient is exact while the exponent stays in range; below that
  the quotient is rounded like any other.
\<close>

fun float_div_1024 :: "pyfloat \<Rightarrow> pyfloat" where
  "float_div_1024 (Finite (Double s m e)) =
     (if - 1074 \<le> e - 10 then Finite (Double s m (e - 10))
      else nearest_double s (of_int m * (2 powi (e - 10))))"
| "float_div_1024 (Inf s) = Inf s"
| "float_div_1024 NaN = NaN"

section \<open>Fixed-point rendering\<close>

definition digit_char :: "int \<Rightarrow> char" where
  "digit_char d = ''0123456789'' ! nat (d mod 10)"

function show_int :: "int \<Rightarrow> string" where
  "show_int n = (if n < 10 then [digit_char n] else show_int (n div 10) @ [digit_char n])"
  by pat_completeness auto
termination
  by (relation "measure nat") auto

declare show_int.simps [simp del]

text \<open>
  \<^verbatim>\<open>f"{x:.2f}"\<close> for a non-negative value \<open>q\<close>: the exact value rounded to
  hundredths (ties to even), then the integer part, a point and two digits.
\<close>

definition fixed2 :: "rat \<Rightarrow> string" where
  "fixed2 q =
     (let c = round_half_even (q * 100)
      in show_int (c div 100) @ ''.'' @ [digit_char (c div 10), digit_char c])"

fun format_2f_float :: "pyfloat \<Rightarrow> string" where
  "format_2f_float (Finite (Double s m e)) =
     (if s then ''-'' else '''') @ fixed2 (of_int m * (2 powi e))"
| "format_2f_float (Inf s) = (if s then ''-inf'' else ''inf'')"
| "format_2f_float NaN = ''nan''"

section \<open>The byte formatter\<close>

text \<open>
  \<^verbatim>\<open>
  def _format_bytes(self, bytes_value):
      if not isinstance(bytes_value, (int, float)):
          return "N/A"
      for unit in ['B', 'KB', 'MB', 'GB', 'TB']:
          if bytes_value < 1024:
              return f"{bytes_value:.2f} {unit}"
          bytes_value /= 1024
      return f"{bytes_value:.2f} PB"
  \<close>
  \<^verbatim>\<open>bool\<close> is a subclass of \<^verbatim>\<open>int\<close>, so \<^verbatim>\<open>isinstance\<close> accepts it and it
  compares, divides and formats as 0 or 1. The local \<^verbatim>\<open>bytes_value\<close> is an
  \<^verbatim>\<open>int\<close> until the first division and a \<^verbatim>\<open>float\<close> after it.
\<close>

datatype pynum = NInt int | NFloat pyfloat

fun as_number :: "pyval \<Rightarrow> pynum option" where
  "as_number (PyInt n) = Some (NInt n)"
| "as_number (PyBool b) = Some (NInt (if b then 1 else 0))"
| "as_number (PyFloat f) = Some (NFloat f)"
| "as_number _ = None"

definition isinstance_int_float :: "pyval \<Rightarrow> bool" where
  "isinstance_int_float v \<longleftrightarrow> as_number v \<noteq> None"

fun lt_1024 :: "pynum \<Rightarrow> bool" where
  "lt_1024 (NInt n) \<longleftrightarrow> n < 1024"
| "lt_1024 (NFloat (Finite d)) \<longleftrightarrow> dval d < 1024"
| "lt_1024 (NFloat (Inf s)) \<longleftrightarrow> s"
| "lt_1024 (NFloat NaN) \<longleftrightarrow> False"

fun div_1024 :: "pynum \<Rightarrow> error + pynum" where
  "div_1024 (NInt n) = map_sum id NFloat (int_truediv n 1024)"
| "div_1024 (NFloat f) = Inr (NFloat (float_div_1024 f))"

fun format_2f :: "pynum \<Rightarrow> error + string" where
  "format_2f (NInt n) = map_sum id format_2f_float (float_of_int n)"
| "format_2f (NFloat f) = Inr (format_2f_float f)"

fun format_units :: "pynum \<Rightarrow> string list \<Rightarrow> error + string" where
  "format_units v [] = map_sum id (\<lambda>s. s @ '' PB'') (format_2f v)"
| "format_units v (unit # units) =
     (if lt_1024 v then map_sum id (\<lambda>s. s @ '' '' @ unit) (format_2f v)
      else case div_1024 v of
             Inl err \<Rightarrow> Inl err
           | Inr v' \<Rightarrow> format_units v' units)"

text \<open>
  The instance \<^verbatim>\<open>self\<close> is the object's attribute dictionary; the class
  \<^verbatim>\<open>SystemMonitor\<close> declares no attribute and the formatter reads none.
\<close>

type_synonym monitor = "(string \<times> pyval) list"

definition format_bytes :: "monitor \<Rightarrow> pyval \<Rightarrow> error + string" where
  "format_bytes self bytes_value =
     (case as_number bytes_value of
        None \<Rightarrow> Inr ''N/A''
      | Some v \<Rightarrow> format_units v [''B'', ''KB'', ''MB'', ''GB'', ''TB''])"

subsection \<open>The formatter's contract, in the specification's words\<close>

text \<open>
  "Unit progresses B, KB, MB, GB, TB, PB, dividing by 1024 at each step while the value
  remains at least 1024", over exact rationals: \<open>spec_escalate v us\<close> walks the units
  \<open>us\<close> that come before PB and stops escalating at PB. The result is rendered with
  two decimals, a space and the unit.
\<close>

fun spec_escalate :: "rat \<Rightarrow> string list \<Rightarrow> rat \<times> string" where
  "spec_escalate v [] = (v, ''PB'')"
| "spec_escalate v (u # us) = (if 1024 \<le> v then spec_escalate (v / 1024) us else (v, u))"

definition unit_names :: "string list" where
  "unit_names = [''B'', ''KB'', ''MB'', ''GB'', ''TB'']"

definition render :: "rat \<times> string \<Rightarrow> string" where
  "render p = fixed2 (fst p) @ '' '' @ snd p"

definition spec_format :: "rat \<Rightarrow> string" where
  "spec_format v = render (spec_escalate v unit_names)"

text \<open>
  The value of the float that \<^verbatim>\<open>n / 1024\<close> yields for an \<^verbatim>\<open>int\<close> \<open>n\<close>
  (0 where the division raises).
\<close>

definition truediv_value :: "int \<Rightarrow> rat" where
  "truediv_value n = (case int_truediv n 1024 of Inr (Finite d) \<Rightarrow> dval d | _ \<Rightarrow> 0)"

text \<open>
  The byte counts the formatter renders: non-negative and below the first
  \<^verbatim>\<open>int\<close> whose quotient by 1024 no longer fits a float
  (\<open>2^1034 - 2^980\<close>, the quotient being at least the midpoint between the largest
  double and \<open>2^1024\<close>).
\<close>

definition formattable :: "int \<Rightarrow> bool" where
  "formattable n \<longleftrightarrow> 0 \<le> n \<and> n < 2 ^ 1034 - 2 ^ 980"

definition is_digit :: "char \<Rightarrow> bool" where
  "is_digit c \<longleftrightarrow> c \<in> set ''0123456789''"

section \<open>What the host reports\<close>

text \<open>
  The collectors read the operating system through \<^verbatim>\<open>psutil\<close>,
  \<^verbatim>\<open>platform\<close> and \<^verbatim>\<open>datetime\<close>. Those libraries are not part of the
  program, so what each call returns (or raises) is an input of the model: one record
  per collector. Named tuples of \<^verbatim>\<open>psutil\<close> become records; a named tuple is
  never empty, so it is truthy and only \<^verbatim>\<open>None\<close> is falsy. Byte and packet
  counts are Python \<^verbatim>\<open>int\<close>s, percentages and times are finite floats.
\<close>

definition and_then :: "error + 'a \<Rightarrow> ('a \<Rightarrow> error + 'b) \<Rightarrow> error + 'b" where
  "and_then r f = (case r of Inl err \<Rightarrow> Inl err | Inr x \<Rightarrow> f x)"

fun dict_get :: "pyval \<Rightarrow> string \<Rightarrow> pyval option" where
  "dict_get (PyDict kvs) k = map_of kvs k"
| "dict_get _ k = None"

definition opt_str :: "string option \<Rightarrow> pyval" where
  "opt_str x = (case x of None \<Rightarrow> PyNone | Some s \<Rightarrow> PyStr s)"

definition opt_float :: "double option \<Rightarrow> pyval" where
  "opt_float x = (case x of None \<Rightarrow> PyNone | Some d \<Rightarrow> PyFloat (Finite d))"

text \<open>\<^verbatim>\<open>self._format_bytes(n)\<close> as a dictionary value, for an \<^verbatim>\<open>int\<close> \<open>n\<close>.\<close>

definition formatted :: "monitor \<Rightarrow> int \<Rightarrow> error + pyval" where
  "formatted self n = map_sum id PyStr (format_bytes self (PyInt n))"

record platform_host =
  platform_system :: string
  platform_node :: string
  platform_release :: string
  platform_version :: string
  platform_machine :: string
  platform_processor :: string

text \<open>
  \<^verbatim>\<open>psutil.cpu_freq()\<close> is called twice by the conditional expression: first in the
  condition, then for \<^verbatim>\<open>.current\<close>. Each field holds the \<^verbatim>\<open>current\<close>
  frequency of one call's result, or \<open>None\<close> when the call returned \<^verbatim>\<open>None\<close>.
\<close>

record cpu_host =
  cpu_percent_total :: "error + double"
  cpu_count :: "error + int option"
  cpu_freq_test :: "error + double option"
  cpu_freq_read :: "error + double option"
  cpu_percent_percpu :: "error + double list"

record svmem =
  vm_total :: int
  vm_available :: int
  vm_used :: int
  vm_percent :: double

record sdiskpart =
  device :: string
  mountpoint :: string
  fstype :: string

record sdiskusage =
  du_total :: int
  du_used :: int
  du_free :: int
  du_percent :: double

record sdiskio =
  read_bytes :: int
  write_bytes :: int

text \<open>
  \<open>disk_usage_of\<close> tabulates \<^verbatim>\<open>psutil.disk_usage(path)\<close>; a path that is not in
  the table does not exist (\<^verbatim>\<open>FileNotFoundError\<close>, an \<^verbatim>\<open>OSError\<close>).
\<close>

record disk_host =
  disk_usage_of :: "(string \<times> (error + sdiskusage)) list"
  disk_io_counters :: "error + sdiskio option"
  disk_partitions :: "error + sdiskpart list"

record snetio =
  bytes_sent :: int
  bytes_recv :: int
  packets_sent :: int
  packets_recv :: int

record snicstats =
  isup :: bool
  speed :: int
  mtu :: int

text \<open>
  \<open>net_if_stats\<close> lists the items of the dictionary \<^verbatim>\<open>psutil.net_if_stats()\<close>
  in its order. \<open>pernic_get\<close> tabulates, per interface name, the outcome of
  \<^verbatim>\<open>psutil.net_io_counters(pernic=True).get(interface)\<close> at the moment the loop
  asks for it; a name that is not in the table has no counters (\<^verbatim>\<open>None\<close>).
\<close>

record net_host =
  net_io_counters :: "error + snetio option"
  net_if_stats :: "error + (string \<times> snicstats) list"
  pernic_get :: "(string \<times> (error + snetio option)) list"

text \<open>
  One process of \<^verbatim>\<open>psutil.process_iter([...])\<close>: the values of its
  \<^verbatim>\<open>info\<close> dictionary (\<^verbatim>\<open>None\<close> where access was denied), the outcome of
  \<^verbatim>\<open>datetime.datetime.fromtimestamp(create_time).strftime('%Y-%m-%d %H:%M:%S')\<close>
  in the host's time zone, and the outcome of the later detail read
  \<^verbatim>\<open>proc.memory_info()\<close> (the resident set size, or the exception raised).
\<close>

record process =
  proc_pid :: int
  proc_name :: "string option"
  proc_username :: "string option"
  proc_cpu_percent :: "double option"
  proc_memory_percent :: "double option"
  proc_create_time :: "double option"
  proc_create_time_text :: "error + string"
  proc_memory_info :: "error + int"

text \<open>
  The whole host: the text of \<^verbatim>\<open>datetime.datetime.now().strftime(...)\<close>, what
  each collector reads, \<^verbatim>\<open>psutil.virtual_memory()\<close> and the processes that
  \<^verbatim>\<open>psutil.process_iter\<close> enumerates.
\<close>

record host =
  host_now :: string
  host_platform :: platform_host
  host_cpu :: cpu_host
  host_virtual_memory :: "error + svmem"
  host_disk :: disk_host
  host_network :: net_host
  host_process_iter :: "error + process list"

section \<open>The collectors\<close>

subsection \<open>System, CPU and memory\<close>

definition get_system_info :: "monitor \<Rightarrow> platform_host \<Rightarrow> error + pyval" where
  "get_system_info self h =
     Inr (PyDict
       [(''system'', PyStr (platform_system h)),
        (''node'', PyStr (platform_node h)),
        (''release'', PyStr (platform_release h)),
        (''version'', PyStr (platform_version h)),
        (''machine'', PyStr (platform_machine h)),
        (''processor'', PyStr (platform_processor h))])"

text \<open>
  \<^verbatim>\<open>
  "cpu_freq": psutil.cpu_freq().current if psutil.cpu_freq() else "N/A"
  \<close>
  The condition is evaluated first; reading \<^verbatim>\<open>.current\<close> of \<^verbatim>\<open>None\<close>
  raises \<^verbatim>\<open>AttributeError\<close>.
\<close>

definition cpu_freq_value :: "cpu_host \<Rightarrow> error + pyval" where
  "cpu_freq_value h =
     and_then (cpu_freq_test h) (\<lambda>t.
       case t of
         None \<Rightarrow> Inr (PyStr ''N/A'')
       | Some _ \<Rightarrow>
           and_then (cpu_freq_read h) (\<lambda>r.
             case r of
               None \<Rightarrow> Inl AttributeError
             | Some c \<Rightarrow> Inr (PyFloat (Finite c))))"

definition get_cpu_info :: "monitor \<Rightarrow> cpu_host \<Rightarrow> error + pyval" where
  "get_cpu_info self h =
     and_then (cpu_percent_total h) (\<lambda>total.
     and_then (cpu_count h) (\<lambda>count.
     and_then (cpu_freq_value h) (\<lambda>freq.
     and_then (cpu_percent_percpu h) (\<lambda>per_cpu.
       Inr (PyDict
         [(''cpu_percent'', PyFloat (Finite total)),
          (''cpu_count'', (case count of None \<Rightarrow> PyNone | Some c \<Rightarrow> PyInt c)),
          (''cpu_freq'', freq),
          (''per_cpu'', PyList (map (\<lambda>d. PyFloat (Finite d)) per_cpu))])))))"

definition get_memory_info :: "monitor \<Rightarrow> error + svmem \<Rightarrow> error + pyval" where
  "get_memory_info self vm =
     and_then vm (\<lambda>memory.
     and_then (formatted self (vm_total memory)) (\<lambda>total_formatted.
     and_then (formatted self (vm_available memory)) (\<lambda>available_formatted.
     and_then (formatted self (vm_used memory)) (\<lambda>used_formatted.
       Inr (PyDict
         [(''total'', PyInt (vm_total memory)),
          (''available'', PyInt (vm_available memory)),
          (''used'', PyInt (vm_used memory)),
          (''percent'', PyFloat (Finite (vm_percent memory))),
          (''total_formatted'', total_formatted),
          (''available_formatted'', available_formatted),
          (''used_formatted'', used_formatted)])))))"

subsection \<open>Disk\<close>

definition disk_usage :: "disk_host \<Rightarrow> string \<Rightarrow> error + sdiskusage" where
  "disk_usage h path = (case map_of (disk_usage_of h) path of None \<Rightarrow> Inl OSError | Some r \<Rightarrow> r)"

text \<open>\<^verbatim>\<open>except (PermissionError, OSError)\<close>.\<close>

definition is_OSError :: "error \<Rightarrow> bool" where
  "is_OSError err \<longleftrightarrow> err = PermissionError \<or> err = OSError"

text \<open>The body of the \<^verbatim>\<open>try\<close> for one partition: the usage query and the entry.\<close>

definition partition_entry :: "monitor \<Rightarrow> sdiskpart \<Rightarrow> sdiskusage \<Rightarrow> error + pyval" where
  "partition_entry self part usage =
     and_then (formatted self (du_total usage)) (\<lambda>total_formatted.
     and_then (formatted self (du_used usage)) (\<lambda>used_formatted.
     and_then (formatted self (du_free usage)) (\<lambda>free_formatted.
       Inr (PyDict
         [(''device'', PyStr (device part)),
          (''mountpoint'', PyStr (mountpoint part)),
          (''fstype'', PyStr (fstype part)),
          (''total'', PyInt (du_total usage)),
          (''used'', PyInt (du_used usage)),
          (''free'', PyInt (du_free usage)),
          (''percent'', PyFloat (Finite (du_percent usage))),
          (''total_formatted'', total_formatted),
          (''used_formatted'', used_formatted),
          (''free_formatted'', free_formatted)]))))"

definition try_partition :: "monitor \<Rightarrow> disk_host \<Rightarrow> sdiskpart \<Rightarrow> error + pyval" where
  "try_partition self h part =
     and_then (disk_usage h (mountpoint part)) (partition_entry self part)"

fun collect_partitions ::
  "monitor \<Rightarrow> disk_host \<Rightarrow> sdiskpart list \<Rightarrow> pyval list \<Rightarrow> error + pyval list" where
  "collect_partitions self h [] partitions = Inr partitions"
| "collect_partitions self h (part # rest) partitions =
     (case try_partition self h part of
        Inl err \<Rightarrow>
          if is_OSError err then collect_partitions self h rest partitions else Inl err
      | Inr entry \<Rightarrow> collect_partitions self h rest (partitions @ [entry]))"

definition main_disk_section :: "monitor \<Rightarrow> sdiskusage \<Rightarrow> error + pyval" where
  "main_disk_section self disk =
     and_then (formatted self (du_total disk)) (\<lambda>total_formatted.
     and_then (formatted self (du_used disk)) (\<lambda>used_formatted.
     and_then (formatted self (du_free disk)) (\<lambda>free_formatted.
       Inr (PyDict
         [(''total'', PyInt (du_total disk)),
          (''used'', PyInt (du_used disk)),
          (''free'', PyInt (du_free disk)),
          (''percent'', PyFloat (Finite (du_percent disk))),
          (''total_formatted'', total_formatted),
          (''used_formatted'', used_formatted),
          (''free_formatted'', free_formatted)]))))"

text \<open>
  \<^verbatim>\<open>
  "io": {
      "read_bytes": io_counters.read_bytes if io_counters else 0,
      "write_bytes": io_counters.write_bytes if io_counters else 0,
      "read_bytes_formatted": self._format_bytes(io_counters.read_bytes) if io_counters else "N/A",
      "write_bytes_formatted": self._format_bytes(io_counters.write_bytes) if io_counters else "N/A"
  }
  \<close>
\<close>

definition io_section :: "monitor \<Rightarrow> sdiskio option \<Rightarrow> error + pyval" where
  "io_section self io_counters =
     (case io_counters of
        None \<Rightarrow>
          Inr (PyDict
            [(''read_bytes'', PyInt 0),
             (''write_bytes'', PyInt 0),
             (''read_bytes_formatted'', PyStr ''N/A''),
             (''write_bytes_formatted'', PyStr ''N/A'')])
      | Some io \<Rightarrow>
          and_then (formatted self (read_bytes io)) (\<lambda>read_bytes_formatted.
          and_then (formatted self (write_bytes io)) (\<lambda>write_bytes_formatted.
            Inr (PyDict
              [(''read_bytes'', PyInt (read_bytes io)),
               (''write_bytes'', PyInt (write_bytes io)),
               (''read_bytes_formatted'', read_bytes_formatted),
               (''write_bytes_formatted'', write_bytes_formatted)]))))"

definition get_disk_info :: "monitor \<Rightarrow> disk_host \<Rightarrow> error + pyval" where
  "get_disk_info self h =
     and_then (disk_usage h ''/'') (\<lambda>disk.
     and_then (disk_io_counters h) (\<lambda>io_counters.
     and_then (disk_partitions h) (\<lambda>listed.
     and_then (collect_partitions self h listed []) (\<lambda>partitions.
     and_then (main_disk_section self disk) (\<lambda>main_disk.
     and_then (io_section self io_counters) (\<lambda>io.
       Inr (PyDict
         [(''main_disk'', main_disk),
          (''io'', io),
          (''partitions'', PyList partitions)])))))))"

subsection \<open>Network\<close>

definition pernic_lookup :: "net_host \<Rightarrow> string \<Rightarrow> error + snetio option" where
  "pernic_lookup h interface =
     (case map_of (pernic_get h) interface of None \<Rightarrow> Inr None | Some r \<Rightarrow> r)"

text \<open>\<^verbatim>\<open>except (KeyError, AttributeError)\<close>.\<close>

definition is_lookup_error :: "error \<Rightarrow> bool" where
  "is_lookup_error err \<longleftrightarrow> err = KeyError \<or> err = AttributeError"

definition interface_entry ::
  "monitor \<Rightarrow> string \<Rightarrow> snicstats \<Rightarrow> snetio \<Rightarrow> error + pyval" where
  "interface_entry self interface stats interface_io =
     and_then (formatted self (bytes_sent interface_io)) (\<lambda>bytes_sent_formatted.
     and_then (formatted self (bytes_recv interface_io)) (\<lambda>bytes_recv_formatted.
       Inr (PyDict
         [(''name'', PyStr interface),
          (''speed'', PyInt (speed stats)),
          (''mtu'', PyInt (mtu stats)),
          (''bytes_sent'', PyInt (bytes_sent interface_io)),
          (''bytes_recv'', PyInt (bytes_recv interface_io)),
          (''bytes_sent_formatted'', bytes_sent_formatted),
          (''bytes_recv_formatted'', bytes_recv_formatted)])))"

text \<open>
  The body of the \<^verbatim>\<open>try\<close> for one interface that is up: \<open>Inr None\<close> when the
  counters are absent and nothing is appended.
\<close>

definition try_interface ::
  "monitor \<Rightarrow> net_host \<Rightarrow> string \<Rightarrow> snicstats \<Rightarrow> error + pyval option" where
  "try_interface self h interface stats =
     and_then (pernic_lookup h interface) (\<lambda>interface_io.
       case interface_io of
         None \<Rightarrow> Inr None
       | Some io \<Rightarrow> map_sum id Some (interface_entry self interface stats io))"

fun collect_interfaces ::
  "monitor \<Rightarrow> net_host \<Rightarrow> (string \<times> snicstats) list \<Rightarrow> pyval list \<Rightarrow> error + pyval list" where
  "collect_interfaces self h [] interfaces = Inr interfaces"
| "collect_interfaces self h ((interface, stats) # rest) interfaces =
     (if isup stats then
        (case try_interface self h interface stats of
           Inl err \<Rightarrow>
             if is_lookup_error err then collect_interfaces self h rest interfaces else Inl err
         | Inr None \<Rightarrow> collect_interfaces self h rest interfaces
         | Inr (Some entry) \<Rightarrow> collect_interfaces self h rest (interfaces @ [entry]))
      else collect_interfaces self h rest interfaces)"

text \<open>
  \<^verbatim>\<open>net_io.bytes_sent\<close> raises \<^verbatim>\<open>AttributeError\<close> when
  \<^verbatim>\<open>psutil.net_io_counters()\<close> returned \<^verbatim>\<open>None\<close>.
\<close>

definition total_section :: "monitor \<Rightarrow> snetio option \<Rightarrow> error + pyval" where
  "total_section self net_io =
     (case net_io of
        None \<Rightarrow> Inl AttributeError
      | Some io \<Rightarrow>
          and_then (formatted self (bytes_sent io)) (\<lambda>bytes_sent_formatted.
          and_then (formatted self (bytes_recv io)) (\<lambda>bytes_recv_formatted.
            Inr (PyDict
              [(''bytes_sent'', PyInt (bytes_sent io)),
               (''bytes_recv'', PyInt (bytes_recv io)),
               (''packets_sent'', PyInt (packets_sent io)),
               (''packets_recv'', PyInt (packets_recv io)),
               (''bytes_sent_formatted'', bytes_sent_formatted),
               (''bytes_recv_formatted'', bytes_recv_formatted)]))))"

definition get_network_info :: "monitor \<Rightarrow> net_host \<Rightarrow> error + pyval" where
  "get_network_info self h =
     and_then (net_io_counters h) (\<lambda>net_io.
     and_then (net_if_stats h) (\<lambda>items.
     and_then (collect_interfaces self h items []) (\<lambda>interfaces.
     and_then (total_section self net_io) (\<lambda>total.
       Inr (PyDict
         [(''total'', total),
          (''interfaces'', PyList interfaces)])))))"

subsection \<open>Processes\<close>

text \<open>
  The sort key \<^verbatim>\<open>p.info['cpu_percent'] or 0\<close>: \<^verbatim>\<open>None\<close> and a zero reading
  are falsy and give \<^verbatim>\<open>0\<close>.
\<close>

definition cpu_key :: "process \<Rightarrow> rat" where
  "cpu_key p =
     (case proc_cpu_percent p of
        None \<Rightarrow> 0
      | Some d \<Rightarrow> if dval d = 0 then 0 else dval d)"

text \<open>
  \<^verbatim>\<open>sorted(xs, key=key, reverse=True)\<close>: CPython reverses the list, sorts it with
  its stable sort and reverses the result, so that equal keys keep their order.
\<close>

definition sorted_reverse :: "('a \<Rightarrow> rat) \<Rightarrow> 'a list \<Rightarrow> 'a list" where
  "sorted_reverse key xs = rev (sort_key key (rev xs))"

text \<open>The slice \<^verbatim>\<open>xs[:n]\<close>; a negative \<open>n\<close> counts from the end.\<close>

definition slice_to :: "int \<Rightarrow> 'a list \<Rightarrow> 'a list" where
  "slice_to n xs = (if 0 \<le> n then take (nat n) xs else take (length xs - nat (- n)) xs)"

text \<open>
  \<^verbatim>\<open>round(x, 1)\<close> for a finite float: the exact value rounded to tenths (ties to
  even), then the double nearest to that decimal, with the sign of \<open>x\<close>.
\<close>

fun py_round1 :: "double \<Rightarrow> pyfloat" where
  "py_round1 (Double s m e) =
     nearest_double s (of_int (round_half_even (of_int m * (2 powi e) * 10)) / 10)"

definition truthy_float :: "double option \<Rightarrow> bool" where
  "truthy_float x = (case x of None \<Rightarrow> False | Some d \<Rightarrow> dval d \<noteq> 0)"

text \<open>
  \<^verbatim>\<open>
  create_time = datetime.datetime.fromtimestamp(proc.info['create_time'])
                    .strftime('%Y-%m-%d %H:%M:%S') if proc.info['create_time'] else "Unknown"
  memory_info = proc.memory_info() if hasattr(proc, 'memory_info') else None
  rss_formatted = self._format_bytes(memory_info.rss) if memory_info else "Unknown"
  \<close>
  Every \<^verbatim>\<open>psutil.Process\<close> has the method \<^verbatim>\<open>memory_info\<close>, so
  \<^verbatim>\<open>hasattr\<close> holds and the method is called; what it returns is a named tuple,
  which is truthy.
\<close>

definition create_time_value :: "process \<Rightarrow> error + pyval" where
  "create_time_value proc =
     (if truthy_float (proc_create_time proc)
      then map_sum id PyStr (proc_create_time_text proc)
      else Inr (PyStr ''Unknown''))"

definition memory_percent_value :: "process \<Rightarrow> pyval" where
  "memory_percent_value proc =
     (case proc_memory_percent proc of
        None \<Rightarrow> PyInt 0
      | Some d \<Rightarrow> if dval d = 0 then PyInt 0 else PyFloat (py_round1 d))"

definition process_entry :: "monitor \<Rightarrow> process \<Rightarrow> error + pyval" where
  "process_entry self proc =
     and_then (create_time_value proc) (\<lambda>create_time.
     and_then (proc_memory_info proc) (\<lambda>rss.
     and_then (formatted self rss) (\<lambda>rss_formatted.
       Inr (PyDict
         [(''pid'', PyInt (proc_pid proc)),
          (''name'', opt_str (proc_name proc)),
          (''username'', opt_str (proc_username proc)),
          (''cpu_percent'', opt_float (proc_cpu_percent proc)),
          (''memory_percent'', memory_percent_value proc),
          (''memory_rss'', rss_formatted),
          (''create_time'', create_time)]))))"

text \<open>\<^verbatim>\<open>except (psutil.NoSuchProcess, psutil.AccessDenied, psutil.ZombieProcess)\<close>.\<close>

definition is_process_gone :: "error \<Rightarrow> bool" where
  "is_process_gone err \<longleftrightarrow> err = NoSuchProcess \<or> err = AccessDenied \<or> err = ZombieProcess"

fun collect_processes :: "monitor \<Rightarrow> process list \<Rightarrow> pyval list \<Rightarrow> error + pyval list" where
  "collect_processes self [] processes = Inr processes"
| "collect_processes self (proc # rest) processes =
     (case process_entry self proc of
        Inl err \<Rightarrow>
          if is_process_gone err then collect_processes self rest processes else Inl err
      | Inr entry \<Rightarrow> collect_processes self rest (processes @ [entry]))"

definition get_process_info :: "monitor \<Rightarrow> error + process list \<Rightarrow> int \<Rightarrow> error + pyval list" where
  "get_process_info self iter top_n =
     and_then iter (\<lambda>procs.
       collect_processes self (slice_to top_n (sorted_reverse cpu_key procs)) [])"

subsection \<open>The snapshot\<close>

text \<open>\<^verbatim>\<open>get_all_info\<close> calls \<^verbatim>\<open>get_process_info()\<close> with its default, 10.\<close>

definition get_all_info :: "monitor \<Rightarrow> host \<Rightarrow> error + pyval" where
  "get_all_info self h =
     and_then (get_system_info self (host_platform h)) (\<lambda>system.
     and_then (get_cpu_info self (host_cpu h)) (\<lambda>cpu_info.
     and_then (get_memory_info self (host_virtual_memory h)) (\<lambda>memory.
     and_then (get_disk_info self (host_disk h)) (\<lambda>disk_info.
     and_then (get_network_info self (host_network h)) (\<lambda>network_info.
     and_then (get_process_info self (host_process_iter h) 10) (\<lambda>processes.
       Inr (PyDict
         [(''timestamp'', PyStr (host_now h)),
          (''system'', system),
          (''cpu'', cpu_info),
          (''memory'', memory),
          (''disk'', disk_info),
          (''network'', network_info),
          (''processes'', PyList processes)])))))))"

section \<open>Conditions on what the host reports\<close>

text \<open>
  The statements below speak about hosts through these conditions. A usage query is
  denied when it raises \<^verbatim>\<open>PermissionError\<close> or another \<^verbatim>\<open>OSError\<close>, and
  readable when it returns byte counts that the formatter renders.
\<close>

definition usage_denied :: "disk_host \<Rightarrow> sdiskpart \<Rightarrow> bool" where
  "usage_denied h p \<longleftrightarrow>
     (case disk_usage h (mountpoint p) of Inl err \<Rightarrow> is_OSError err | Inr u \<Rightarrow> False)"

definition usage_formattable :: "sdiskusage \<Rightarrow> bool" where
  "usage_formattable u \<longleftrightarrow>
     formattable (du_total u) \<and> formattable (du_used u) \<and> formattable (du_free u)"

definition usage_readable :: "disk_host \<Rightarrow> sdiskpart \<Rightarrow> bool" where
  "usage_readable h p \<longleftrightarrow>
     (case disk_usage h (mountpoint p) of Inl err \<Rightarrow> False | Inr u \<Rightarrow> usage_formattable u)"

definition io_formattable :: "sdiskio option \<Rightarrow> bool" where
  "io_formattable io \<longleftrightarrow>
     (case io of None \<Rightarrow> True | Some c \<Rightarrow> formattable (read_bytes c) \<and> formattable (write_bytes c))"

text \<open>What an entry of the partitions sequence says about a partition and its usage.\<close>

definition partition_fields :: "sdiskpart \<Rightarrow> sdiskusage \<Rightarrow> pyval \<Rightarrow> bool" where
  "partition_fields p u d \<longleftrightarrow>
     dict_get d ''device'' = Some (PyStr (device p)) \<and>
     dict_get d ''mountpoint'' = Some (PyStr (mountpoint p)) \<and>
     dict_get d ''fstype'' = Some (PyStr (fstype p)) \<and>
     dict_get d ''total'' = Some (PyInt (du_total u)) \<and>
     dict_get d ''used'' = Some (PyInt (du_used u)) \<and>
     dict_get d ''free'' = Some (PyInt (du_free u)) \<and>
     dict_get d ''percent'' = Some (PyFloat (Finite (du_percent u))) \<and>
     map_sum id (\<lambda>s. Some (PyStr s)) (format_bytes [] (PyInt (du_total u))) =
       Inr (dict_get d ''total_formatted'') \<and>
     map_sum id (\<lambda>s. Some (PyStr s)) (format_bytes [] (PyInt (du_used u))) =
       Inr (dict_get d ''used_formatted'') \<and>
     map_sum id (\<lambda>s. Some (PyStr s)) (format_bytes [] (PyInt (du_free u))) =
       Inr (dict_get d ''free_formatted'')"

definition describes_partition :: "disk_host \<Rightarrow> sdiskpart \<Rightarrow> pyval \<Rightarrow> bool" where
  "describes_partition h p d \<longleftrightarrow>
     (case disk_usage h (mountpoint p) of Inl err \<Rightarrow> False | Inr u \<Rightarrow> partition_fields p u d)"

text \<open>The io section when the platform exposes no counters.\<close>

definition io_unavailable :: pyval where
  "io_unavailable =
     PyDict
       [(''read_bytes'', PyInt 0),
        (''write_bytes'', PyInt 0),
        (''read_bytes_formatted'', PyStr ''N/A''),
        (''write_bytes_formatted'', PyStr ''N/A'')]"

text \<open>
  An item of \<^verbatim>\<open>net_if_stats\<close> has its counters present when the lookup returns a
  named tuple (with byte counts the formatter renders), and missing when the lookup
  returns \<^verbatim>\<open>None\<close> or fails with \<^verbatim>\<open>KeyError\<close> or \<^verbatim>\<open>AttributeError\<close>.
\<close>

definition counters_present :: "net_host \<Rightarrow> string \<times> snicstats \<Rightarrow> bool" where
  "counters_present h item \<longleftrightarrow>
     (case pernic_lookup h (fst item) of
        Inl err \<Rightarrow> False
      | Inr None \<Rightarrow> False
      | Inr (Some io) \<Rightarrow> formattable (bytes_sent io) \<and> formattable (bytes_recv io))"

definition counters_missing :: "net_host \<Rightarrow> string \<times> snicstats \<Rightarrow> bool" where
  "counters_missing h item \<longleftrightarrow>
     (case pernic_lookup h (fst item) of
        Inl err \<Rightarrow> is_lookup_error err
      | Inr None \<Rightarrow> True
      | Inr (Some io) \<Rightarrow> False)"

definition is_down :: "string \<times> snicstats \<Rightarrow> bool" where
  "is_down item \<longleftrightarrow> \<not> isup (snd item)"

definition reported :: "net_host \<Rightarrow> string \<times> snicstats \<Rightarrow> bool" where
  "reported h item \<longleftrightarrow> isup (snd item) \<and> counters_present h item"

definition interface_fields :: "string \<times> snicstats \<Rightarrow> snetio \<Rightarrow> pyval \<Rightarrow> bool" where
  "interface_fields item io d \<longleftrightarrow>
     dict_get d ''name'' = Some (PyStr (fst item)) \<and>
     dict_get d ''speed'' = Some (PyInt (speed (snd item))) \<and>
     dict_get d ''mtu'' = Some (PyInt (mtu (snd item))) \<and>
     dict_get d ''bytes_sent'' = Some (PyInt (bytes_sent io)) \<and>
     dict_get d ''bytes_recv'' = Some (PyInt (bytes_recv io)) \<and>
     map_sum id (\<lambda>s. Some (PyStr s)) (format_bytes [] (PyInt (bytes_sent io))) =
       Inr (dict_get d ''bytes_sent_formatted'') \<and>
     map_sum id (\<lambda>s. Some (PyStr s)) (format_bytes [] (PyInt (bytes_recv io))) =
       Inr (dict_get d ''bytes_recv_formatted'')"

definition describes_interface :: "net_host \<Rightarrow> string \<times> snicstats \<Rightarrow> pyval \<Rightarrow> bool" where
  "describes_interface h item d \<longleftrightarrow>
     (case pernic_lookup h (fst item) of
        Inl err \<Rightarrow> False
      | Inr None \<Rightarrow> False
      | Inr (Some io) \<Rightarrow> interface_fields item io d)"

text \<open>
  For a process: its creation time is rendered without an exception; its detail read is
  lost when \<^verbatim>\<open>memory_info()\<close> raises \<^verbatim>\<open>NoSuchProcess\<close>,
  \<^verbatim>\<open>AccessDenied\<close> or \<^verbatim>\<open>ZombieProcess\<close>, and read when it returns a
  resident set size that the formatter renders.
\<close>

definition create_time_known :: "process \<Rightarrow> bool" where
  "create_time_known p \<longleftrightarrow> (case create_time_value p of Inl err \<Rightarrow> False | Inr v \<Rightarrow> True)"

definition detail_lost :: "process \<Rightarrow> bool" where
  "detail_lost p \<longleftrightarrow>
     (case proc_memory_info p of Inl err \<Rightarrow> is_process_gone err | Inr rss \<Rightarrow> False)"

definition detail_read :: "process \<Rightarrow> bool" where
  "detail_read p \<longleftrightarrow>
     (case proc_memory_info p of Inl err \<Rightarrow> False | Inr rss \<Rightarrow> formattable rss)"

definition well_behaved :: "process \<Rightarrow> bool" where
  "well_behaved p \<longleftrightarrow> create_time_known p \<and> (detail_lost p \<or> detail_read p)"

definition process_fields :: "process \<Rightarrow> pyval \<Rightarrow> bool" where
  "process_fields p d \<longleftrightarrow>
     dict_get d ''pid'' = Some (PyInt (proc_pid p)) \<and>
     dict_get d ''name'' = Some (opt_str (proc_name p)) \<and>
     dict_get d ''username'' = Some (opt_str (proc_username p)) \<and>
     dict_get d ''cpu_percent'' = Some (opt_float (proc_cpu_percent p)) \<and>
     dict_get d ''memory_percent'' = Some (memory_percent_value p) \<and>
     map_sum id (\<lambda>s. Some (PyStr s))
         (and_then (proc_memory_info p) (\<lambda>rss. format_bytes [] (PyInt rss))) =
       Inr (dict_get d ''memory_rss'') \<and>
     map_sum id Some (create_time_value p) = Inr (dict_get d ''create_time'')"

text \<open>The processes whose detail is read: the slice of the ranking.\<close>

definition ranked :: "int \<Rightarrow> process list \<Rightarrow> process list" where
  "ranked top_n procs = slice_to top_n (sorted_reverse cpu_key procs)"

text \<open>The sort key, read back from an emitted record.\<close>

definition entry_cpu_key :: "pyval \<Rightarrow> rat" where
  "entry_cpu_key d =
     (case dict_get d ''cpu_percent'' of
        Some (PyFloat (Finite x)) \<Rightarrow> dval x
      | _ \<Rightarrow> 0)"

definition descending :: "('a \<Rightarrow> rat) \<Rightarrow> 'a list \<Rightarrow> bool" where
  "descending key xs \<longleftrightarrow> sorted_wrt (\<lambda>a b. key b \<le> key a) xs"

text \<open>Whether the loop body emits a record for a process, and a field of a result.\<close>

definition entry_emitted :: "monitor \<Rightarrow> process \<Rightarrow> bool" where
  "entry_emitted self p \<longleftrightarrow> (case process_entry self p of Inl err \<Rightarrow> False | Inr d \<Rightarrow> True)"

definition result_field :: "error + pyval \<Rightarrow> string \<Rightarrow> pyval option" where
  "result_field r k = (case r of Inl err \<Rightarrow> None | Inr d \<Rightarrow> dict_get d k)"

section \<open>Sample hosts\<close>

text \<open>
  A disk host with three mounts, of which \<^verbatim>\<open>/boot/efi\<close> denies the usage query, and
  no I/O counters; and the same kind of host with the root mount denying it.
\<close>

definition sample_usage :: sdiskusage where
  "sample_usage = \<lparr>du_total = 2048, du_used = 512, du_free = 1536, du_percent = Double False 25 0\<rparr>"

definition sample_partitions :: "sdiskpart list" where
  "sample_partitions =
     [\<lparr>device = ''/dev/sda1'', mountpoint = ''/'', fstype = ''ext4''\<rparr>,
      \<lparr>device = ''/dev/sda2'', mountpoint = ''/boot/efi'', fstype = ''vfat''\<rparr>,
      \<lparr>device = ''/dev/sdb1'', mountpoint = ''/data'', fstype = ''ext4''\<rparr>]"

definition sample_disk :: disk_host where
  "sample_disk =
     \<lparr>disk_usage_of =
        [(''/'', Inr sample_usage),
         (''/boot/efi'', Inl PermissionError),
         (''/data'', Inr sample_usage)],
      disk_io_counters = Inr None,
      disk_partitions = Inr sample_partitions\<rparr>"

definition root_denied_partitions :: "sdiskpart list" where
  "root_denied_partitions =
     [\<lparr>device = ''/dev/sda1'', mountpoint = ''/'', fstype = ''ext4''\<rparr>,
      \<lparr>device = ''/dev/sdb1'', mountpoint = ''/data'', fstype = ''ext4''\<rparr>]"

definition root_denied_disk :: disk_host where
  "root_denied_disk =
     \<lparr>disk_usage_of = [(''/'', Inl PermissionError), (''/data'', Inr sample_usage)],
      disk_io_counters = Inr None,
      disk_partitions = Inr root_denied_partitions\<rparr>"

text \<open>
  A network host: \<^verbatim>\<open>lo\<close> and \<^verbatim>\<open>eth0\<close> are up with counters, \<^verbatim>\<open>eth1\<close> is
  down, \<^verbatim>\<open>wlan0\<close> is up without counters and the lookup for \<^verbatim>\<open>tun0\<close> fails.
\<close>

definition sample_counters :: snetio where
  "sample_counters = \<lparr>bytes_sent = 1536, bytes_recv = 1024, packets_sent = 3, packets_recv = 2\<rparr>"

definition sample_interfaces :: "(string \<times> snicstats) list" where
  "sample_interfaces =
     [(''lo'', \<lparr>isup = True, speed = 0, mtu = 65536\<rparr>),
      (''eth0'', \<lparr>isup = True, speed = 1000, mtu = 1500\<rparr>),
      (''eth1'', \<lparr>isup = False, speed = 0, mtu = 1500\<rparr>),
      (''wlan0'', \<lparr>isup = True, speed = 0, mtu = 1500\<rparr>),
      (''tun0'', \<lparr>isup = True, speed = 10, mtu = 1400\<rparr>)]"

definition sample_network :: net_host where
  "sample_network =
     \<lparr>net_io_counters = Inr (Some sample_counters),
      net_if_stats = Inr sample_interfaces,
      pernic_get =
        [(''lo'', Inr (Some sample_counters)),
         (''eth0'', Inr (Some sample_counters)),
         (''eth1'', Inr (Some sample_counters)),
         (''tun0'', Inl KeyError)]\<rparr>"

text \<open>
  Three processes: one whose readings were denied at enumeration (all \<^verbatim>\<open>None\<close>),
  one busy at 12.5 percent, and one at 50 percent that exits before its detail read.
\<close>

definition idle_process :: process where
  "idle_process =
     \<lparr>proc_pid = 12, proc_name = Some ''idle'', proc_username = None,
      proc_cpu_percent = None, proc_memory_percent = None, proc_create_time = None,
      proc_create_time_text = Inl ValueError, proc_memory_info = Inr 4096\<rparr>"

definition busy_process :: process where
  "busy_process =
     \<lparr>proc_pid = 10, proc_name = Some ''busy'', proc_username = Some ''root'',
      proc_cpu_percent = Some (Double False 25 (- 1)),
      proc_memory_percent = Some (Double False 5 (- 2)),
      proc_create_time = Some (Double False 1700000000 0),
      proc_create_time_text = Inr ''2023-11-14 22:13:20'', proc_memory_info = Inr 1536\<rparr>"

definition vanished_process :: process where
  "vanished_process =
     \<lparr>proc_pid = 11, proc_name = Some ''gone'', proc_username = Some ''root'',
      proc_cpu_percent = Some (Double False 50 0),
      proc_memory_percent = Some (Double False 1 0),
      proc_create_time = Some (Double False 1700000000 0),
      proc_create_time_text = Inr ''2023-11-14 22:13:20'', proc_memory_info = Inl NoSuchProcess\<rparr>"

definition sample_processes :: "process list" where
  "sample_processes = [idle_process, busy_process, vanished_process]"

definition sample_cpu :: cpu_host where
  "sample_cpu =
     \<lparr>cpu_percent_total = Inr (Double False 25 (- 1)),
      cpu_count = Inr (Some 2),
      cpu_freq_test = Inr None,
      cpu_freq_read = Inr None,
      cpu_percent_percpu = Inr [Double False 25 0, Double False 0 0]\<rparr>"

definition sample_platform :: platform_host where
  "sample_platform =
     \<lparr>platform_system = ''Linux'', platform_node = ''host'', platform_release = ''6.1'',
      platform_version = ''1'', platform_machine = ''x86_64'', platform_processor = ''x86_64''\<rparr>"

definition sample_memory :: svmem where
  "sample_memory =
     \<lparr>vm_total = 4096, vm_available = 1024, vm_used = 3072, vm_percent = Double False 75 0\<rparr>"

text \<open>A host whose only process exits between enumeration and detail read.\<close>

definition vanishing_host :: host where
  "vanishing_host =
     \<lparr>host_now = ''2023-11-14 22:13:21'',
      host_platform = sample_platform,
      host_cpu = sample_cpu,
      host_virtual_memory = Inr sample_memory,
      host_disk = sample_disk,
      host_network = sample_network,
      host_process_iter = Inr [vanished_process]\<rparr>"

text \<open>
  The same host with the three sample processes, and with twelve workers that all
  answer their detail read (one more than the snapshot keeps, and two to spare).
\<close>

definition sample_host :: host where
  "sample_host =
     \<lparr>host_now = ''2023-11-14 22:13:21'',
      host_platform = sample_platform,
      host_cpu = sample_cpu,
      host_virtual_memory = Inr sample_memory,
      host_disk = sample_disk,
      host_network = sample_network,
      host_process_iter = Inr sample_processes\<rparr>"

definition crowd_member :: "int \<Rightarrow> process" where
  "crowd_member i =
     \<lparr>proc_pid = 100 + i, proc_name = Some ''worker'', proc_username = Some ''www'',
      proc_cpu_percent = Some (Double False i 0),
      proc_memory_percent = Some (Double False 1 0),
      proc_create_time = Some (Double False 1700000000 0),
      proc_create_time_text = Inr ''2023-11-14 22:13:20'', proc_memory_info = Inr 2048\<rparr>"

definition crowd :: "process list" where
  "crowd = map crowd_member [1, 2, 3, 4, 5, 6, 7, 8, 9, 10, 11, 12]"

definition crowded_host :: host where
  "crowded_host =
     \<lparr>host_now = ''2023-11-14 22:13:21'',
      host_platform = sample_platform,
      host_cpu = sample_cpu,
      host_virtual_memory = Inr sample_memory,
      host_disk = sample_disk,
      host_network = sample_network,
      host_process_iter = Inr crowd\<rparr>"

text \<open>
  A host on which \<^verbatim>\<open>psutil.cpu_count()\<close> cannot determine the number of CPUs and
  returns \<^verbatim>\<open>None\<close>, as its documentation allows, while
  \<^verbatim>\<open>psutil.cpu_percent(percpu=True)\<close> reports two CPUs; its only process exits
  between enumeration and detail read.
\<close>

definition undetermined_cpu :: cpu_host where
  "undetermined_cpu =
     \<lparr>cpu_percent_total = Inr (Double False 25 (- 1)),
      cpu_count = Inr None,
      cpu_freq_test = Inr None,
      cpu_freq_read = Inr None,
      cpu_percent_percpu = Inr [Double False 25 0, Double False 0 0]\<rparr>"

definition undetermined_host :: host where
  "undetermined_host =
     \<lparr>host_now = ''2023-11-14 22:13:21'',
      host_platform = sample_platform,
      host_cpu = undetermined_cpu,
      host_virtual_memory = Inr sample_memory,
      host_disk = sample_disk,
      host_network = sample_network,
      host_process_iter = Inr [vanished_process]\<rparr>"

section \<open>Floating-point facts\<close>

lemma bit_length_bounds:
  "0 < n \<Longrightarrow> 1 \<le> bit_length n \<and> 2 ^ nat (bit_length n - 1) \<le> n \<and> n < 2 ^ nat (bit_length n)"
proof (induction n rule: bit_length.induct)
  case (1 n)
  show ?case
  proof (cases "n = 1")
    case True
    have "bit_length 1 = 1"
      by (simp add: bit_length.simps [of 1] bit_length.simps [of 0])
    with True show ?thesis by simp
  next
    case False
    with "1.prems" have pos: "0 < n div 2" by simp
    define b where "b = bit_length (n div 2)"
    from "1.IH" pos "1.prems" have ih: "1 \<le> b" "2 ^ nat (b - 1) \<le> n div 2" "n div 2 < 2 ^ nat b"
      by (simp_all add: b_def)
    have bl: "bit_length n = 1 + b"
      using "1.prems" by (simp add: bit_length.simps [of n] b_def)
    have nb: "nat b = Suc (nat (b - 1))" using ih(1) by simp
    have "(2::int) ^ nat b = 2 * 2 ^ nat (b - 1)" by (subst nb) simp
    also have "\<dots> \<le> 2 * (n div 2)" using ih(2) by simp
    also have "\<dots> \<le> n" by simp
    finally have lo: "2 ^ nat b \<le> n" .
    have "n < 2 * (n div 2) + 2" by (simp add: algebra_simps)
    also have "\<dots> \<le> 2 * 2 ^ nat b" using ih(3) by simp
    finally have hi: "n < 2 ^ Suc (nat b)" by simp
    have "nat (1 + b) = Suc (nat b)" using ih(1) by simp
    with lo hi ih(1) bl show ?thesis by simp
  qed
qed

lemma bit_length_bounds_rat:
  assumes "0 < n"
  shows "2 powi (bit_length n - 1) \<le> (of_int n :: rat)" "(of_int n :: rat) < 2 powi (bit_length n)"
proof -
  from bit_length_bounds [OF assms]
  have b: "1 \<le> bit_length n" "2 ^ nat (bit_length n - 1) \<le> n" "n < 2 ^ nat (bit_length n)"
    by simp_all
  have "(2::rat) powi (bit_length n - 1) = of_int (2 ^ nat (bit_length n - 1))"
    using b(1) by (simp add: power_int_def)
  also have "\<dots> \<le> of_int n" using b(2) by (simp only: of_int_le_iff)
  finally show "2 powi (bit_length n - 1) \<le> (of_int n :: rat)" .
  have "(of_int n :: rat) < of_int (2 ^ nat (bit_length n))"
    using b(3) by (simp only: of_int_less_iff)
  also have "\<dots> = 2 powi (bit_length n)" using b(1) by (simp add: power_int_def)
  finally show "(of_int n :: rat) < 2 powi (bit_length n)" .
qed

lemma floor_log2_bounds:
  assumes "0 < q"
  shows "2 powi (floor_log2 q) \<le> q \<and> q < 2 powi (floor_log2 q + 1)"
proof -
  obtain p d where pd: "quotient_of q = (p, d)" by (cases "quotient_of q")
  have dpos: "0 < d" using pd by (rule quotient_of_denom_pos)
  have q: "q = of_int p / of_int d" using pd by (rule quotient_of_div)
  have ppos: "0 < p" using assms dpos q by (simp add: zero_less_divide_iff)
  define k where "k = bit_length p - bit_length d"
  note bp = bit_length_bounds_rat [OF ppos]
  note bd = bit_length_bounds_rat [OF dpos]
  have dr: "0 < (of_int d :: rat)" using dpos by simp
  have "q < 2 powi (bit_length p) / 2 powi (bit_length d - 1)"
    unfolding q using bp(2) bd(1) dr ppos
    by (intro frac_less) simp_all
  also have "\<dots> = 2 powi (k + 1)"
    by (simp add: k_def power_int_diff [symmetric] algebra_simps)
  finally have up: "q < 2 powi (k + 1)" .
  have "2 powi (k - 1) = 2 powi (bit_length p - 1) / (2::rat) powi (bit_length d)"
    by (simp add: k_def power_int_diff [symmetric] algebra_simps)
  also have "\<dots> \<le> q"
    unfolding q using bp(1) bd(2) dr ppos
    by (intro frac_le) (simp_all add: less_imp_le)
  finally have lo: "2 powi (k - 1) \<le> q" .
  have fl: "floor_log2 q = (if 2 powi k \<le> q then k else k - 1)"
    by (simp add: floor_log2_def pd k_def Let_def)
  show ?thesis
  proof (cases "2 powi k \<le> q")
    case True
    with fl up show ?thesis by simp
  next
    case False
    with fl lo show ?thesis by simp
  qed
qed

lemma floor_log2_unique:
  assumes "2 powi e \<le> q" "q < 2 powi (e + 1)"
  shows "floor_log2 q = e"
proof -
  have qpos: "0 < q" using assms(1) by (rule less_le_trans [rotated]) simp
  from floor_log2_bounds [OF qpos]
  have b: "2 powi (floor_log2 q) \<le> q" "q < 2 powi (floor_log2 q + 1)" by simp_all
  have "(2::rat) powi e < 2 powi (floor_log2 q + 1)" using assms(1) b(2) by simp
  then have 1: "e < floor_log2 q + 1"
    by (metis linorder_not_less one_le_numeral power_int_increasing)
  have "(2::rat) powi (floor_log2 q) < 2 powi (e + 1)" using assms(2) b(1) by simp
  then have 2: "floor_log2 q < e + 1"
    by (metis linorder_not_less one_le_numeral power_int_increasing)
  from 1 2 show ?thesis by simp
qed

lemma round_half_even_of_int: "round_half_even (of_int k) = k"
  by (simp add: round_half_even_def)

lemma round_half_even_bounds:
  "x - 1 / 2 \<le> of_int (round_half_even x) \<and> of_int (round_half_even x) \<le> x + 1 / 2"
proof -
  define f where "f = \<lfloor>x\<rfloor>"
  have "of_int f \<le> x" "x < of_int f + 1" unfolding f_def by linarith+
  then show ?thesis
    unfolding round_half_even_def Let_def f_def [symmetric] by auto
qed

lemma round_half_even_ge: "of_int k \<le> x \<Longrightarrow> k \<le> round_half_even x"
proof -
  assume "of_int k \<le> x"
  then have "k \<le> \<lfloor>x\<rfloor>" by (simp add: le_floor_iff)
  then show ?thesis by (auto simp: round_half_even_def Let_def)
qed

lemma round_half_even_le: "x \<le> of_int k \<Longrightarrow> round_half_even x \<le> k"
proof -
  assume a: "x \<le> of_int k"
  show ?thesis
  proof (cases "x = of_int k")
    case True
    then show ?thesis by (simp add: round_half_even_of_int)
  next
    case False
    with a have "x < of_int k" by simp
    then have "\<lfloor>x\<rfloor> < k" by (simp add: floor_less_iff)
    then show ?thesis by (auto simp: round_half_even_def Let_def)
  qed
qed

lemma nearest_double_normal:
  assumes qpos: "0 < q" and e: "2 powi e \<le> q" "q < 2 powi (e + 1)" and er: "- 1022 \<le> e"
  defines "m \<equiv> round_half_even (q / (2 powi (e - 52)))"
  shows "2 ^ 52 \<le> m \<and> m \<le> 2 ^ 53 \<and>
         nearest_double s q =
           (if m = 2 ^ 53 then (if 971 < e - 51 then Inf s else Finite (Double s (2 ^ 52) (e - 51)))
            else (if 971 < e - 52 then Inf s else Finite (Double s m (e - 52))))"
proof -
  have fl: "floor_log2 q = e" using e by (rule floor_log2_unique)
  have mx: "max e (- 1022) = e" using er by simp
  have p52: "(2::rat) powi e = 2 ^ 52 * 2 powi (e - 52)"
    by (simp add: power_int_diff)
  have p53: "(2::rat) powi (e + 1) = 2 ^ 53 * 2 powi (e - 52)"
    by (simp add: power_int_diff power_int_add)
  have pos: "0 < (2::rat) powi (e - 52)" by simp
  have lo: "of_int (2 ^ 52) \<le> q / (2 powi (e - 52))"
    using e(1) pos by (simp add: p52 pos_le_divide_eq)
  have hi: "q / (2 powi (e - 52)) \<le> of_int (2 ^ 53)"
    using e(2) pos by (simp add: p53 pos_divide_le_eq less_imp_le)
  have m1: "2 ^ 52 \<le> m" unfolding m_def using lo by (rule round_half_even_ge)
  have m2: "m \<le> 2 ^ 53" unfolding m_def using hi by (rule round_half_even_le)
  have "nearest_double s q =
          (if m = 2 ^ 53 then (if 971 < e - 51 then Inf s else Finite (Double s (2 ^ 52) (e - 51)))
           else (if 971 < e - 52 then Inf s else Finite (Double s m (e - 52))))"
    using qpos by (simp add: nearest_double_def fl mx Let_def m_def)
  with m1 m2 show ?thesis by simp
qed

lemma power_int_less_exp:
  assumes "(2::rat) powi a < 2 powi b"
  shows "a < b"
  using assms by (metis linorder_not_less one_le_numeral power_int_increasing)

lemma int_truediv_exact:
  assumes n: "0 < n" "n < 2 ^ 53" and j: "j \<le> 10"
  shows "\<exists>m e. int_truediv n (2 ^ j) = Inr (Finite (Double False m e)) \<and>
           of_int m * 2 powi e = (of_int n / 2 ^ j :: rat) \<and>
           0 \<le> m \<and> m < 2 ^ 53 \<and> - 62 \<le> e \<and> e \<le> 0"
proof -
  define q :: rat where "q = of_int n / 2 ^ j"
  define e where "e = floor_log2 q"
  have qpos: "0 < q" using n(1) by (simp add: q_def)
  from floor_log2_bounds [OF qpos]
  have b: "2 powi e \<le> q" "q < 2 powi (e + 1)" by (simp_all add: e_def)
  have "q < 2 ^ 53 / 2 ^ j"
  proof -
    have "(of_int n :: rat) < of_int (2 ^ 53)" using n(2) by (simp only: of_int_less_iff)
    then show ?thesis by (simp add: q_def divide_strict_right_mono)
  qed
  also have "\<dots> = 2 powi (53 - int j)"
    by (simp add: power_int_diff)
  finally have "(2::rat) powi e < 2 powi (53 - int j)" using b(1) by simp
  then have e_hi: "e < 53 - int j" by (rule power_int_less_exp)
  have "(2::rat) powi (- int j) = 1 / 2 ^ j" by (simp add: power_int_minus_divide)
  also have "\<dots> \<le> q"
  proof -
    have "(of_int 1 :: rat) \<le> of_int n" using n(1) by (simp only: of_int_le_iff)
    then show ?thesis by (simp add: q_def divide_right_mono)
  qed
  finally have "(2::rat) powi (- int j) < 2 powi (e + 1)" using b(2) by simp
  then have e_lo: "- int j < e + 1" by (rule power_int_less_exp)
  define k where "k = nat (52 - e - int j)"
  have k: "int k = 52 - e - int j" using e_hi by (simp add: k_def)
  have x: "q / (2 powi (e - 52)) = of_int (n * 2 ^ k)"
  proof -
    have "q / (2 powi (e - 52)) = of_int n * (2 powi (- int j) * 2 powi (52 - e))"
      by (simp add: q_def power_int_minus_divide power_int_diff field_simps)
    also have "2 powi (- int j) * 2 powi (52 - e) = (2::rat) powi (int k)"
      by (simp add: k power_int_add [symmetric])
    finally show ?thesis by simp
  qed
  define m where "m = round_half_even (q / (2 powi (e - 52)))"
  have m: "m = n * 2 ^ k" by (simp add: m_def x round_half_even_of_int del: of_int_mult of_int_power)
  have er: "- 1022 \<le> e" using e_lo j by simp
  from nearest_double_normal [OF qpos b er, of False, folded m_def]
  have nd: "m \<le> 2 ^ 53"
    "nearest_double False q =
      (if m = 2 ^ 53 then (if 971 < e - 51 then Inf False else Finite (Double False (2 ^ 52) (e - 51)))
       else (if 971 < e - 52 then Inf False else Finite (Double False m (e - 52))))"
    by simp_all
  have "of_int m < q / (2 powi (e - 52)) + (1::rat) \<and> q / (2 powi (e - 52)) < 2 ^ 53"
  proof
    show "of_int m < q / (2 powi (e - 52)) + (1::rat)" by (simp add: m x)
    have "q < 2 ^ 53 * 2 powi (e - 52)" using b(2) by (simp add: power_int_diff power_int_add)
    then show "q / (2 powi (e - 52)) < 2 ^ 53" by (simp add: pos_divide_less_eq)
  qed
  then have "(of_int m :: rat) < of_int (2 ^ 53)" by (simp add: x m)
  then have mlt: "m < 2 ^ 53" by (simp only: of_int_less_iff)
  have res: "nearest_double False q = Finite (Double False m (e - 52))"
    using nd(2) mlt e_hi by simp
  have val: "of_int m * 2 powi (e - 52) = q"
  proof -
    have "of_int m * 2 powi (e - 52) = q / (2 powi (e - 52)) * 2 powi (e - 52)"
      by (simp only: m x)
    then show ?thesis by simp
  qed
  have mpos: "0 \<le> m" using n(1) by (simp add: m)
  have "int_truediv n (2 ^ j) = Inr (Finite (Double False m (e - 52)))"
    using n(1) res by (simp add: int_truediv_def q_def)
  with val mpos mlt e_lo e_hi j show ?thesis
    by (intro exI [of _ m] exI [of _ "e - 52"]) (simp add: q_def)
qed

lemma int_truediv_large:
  assumes n: "2 ^ 53 \<le> n" "n < 2 ^ 1034 - 2 ^ 980"
  shows "\<exists>m e. int_truediv n 1024 = Inr (Finite (Double False m e)) \<and>
           2 ^ 52 \<le> m \<and> m < 2 ^ 53 \<and> - 9 \<le> e \<and> e \<le> 971 \<and>
           \<bar>of_int m * 2 powi e - (of_int n / 1024 :: rat)\<bar> \<le> of_int n / 1024 / 2 ^ 53"
proof -
  define q :: rat where "q = of_int n / 1024"
  define e where "e = floor_log2 q"
  have nr: "(2::rat) ^ 53 \<le> of_int n" "(of_int n :: rat) < 2 ^ 1034 - 2 ^ 980"
  proof -
    have "(of_int (2 ^ 53) :: rat) \<le> of_int n" using n(1) by (simp only: of_int_le_iff)
    then show "(2::rat) ^ 53 \<le> of_int n" by simp
    have "(of_int n :: rat) < of_int (2 ^ 1034 - 2 ^ 980)" using n(2) by (simp only: of_int_less_iff)
    then show "(of_int n :: rat) < 2 ^ 1034 - 2 ^ 980" by simp
  qed
  have q_lo: "2 ^ 43 \<le> q" using nr(1) by (simp add: q_def)
  have q_hi: "q < 2 ^ 1024 - 2 ^ 970" using nr(2) by (simp add: q_def)
  have qpos: "0 < q" using q_lo by (rule less_le_trans [rotated]) simp
  from floor_log2_bounds [OF qpos]
  have b: "2 powi e \<le> q" "q < 2 powi (e + 1)" by (simp_all add: e_def)
  have "(2::rat) powi 43 < 2 powi (e + 1)" using q_lo b(2) by simp
  then have e_lo: "43 < e + 1" by (rule power_int_less_exp)
  have "(2::rat) powi e < 2 powi 1024" using q_hi b(1) by simp
  then have e_hi: "e < 1024" by (rule power_int_less_exp)
  define x where "x = q / (2 powi (e - 52))"
  define m where "m = round_half_even x"
  have er: "- 1022 \<le> e" using e_lo by simp
  from nearest_double_normal [OF qpos b er, of False, folded x_def, folded m_def]
  have nd: "2 ^ 52 \<le> m" "m \<le> 2 ^ 53"
    "nearest_double False q =
      (if m = 2 ^ 53 then (if 971 < e - 51 then Inf False else Finite (Double False (2 ^ 52) (e - 51)))
       else (if 971 < e - 52 then Inf False else Finite (Double False m (e - 52))))"
    by simp_all
  have rb: "x - 1 / 2 \<le> of_int m" "of_int m \<le> x + 1 / 2"
    using round_half_even_bounds [of x] by (simp_all add: m_def)
  have top: "m < 2 ^ 53" if "e = 1023"
  proof -
    have "x = q / 2 ^ 971" using that by (simp add: x_def)
    also have "\<dots> < (2 ^ 1024 - 2 ^ 970) / 2 ^ 971"
      using q_hi by (rule divide_strict_right_mono) simp
    also have "\<dots> = 2 ^ 53 - 1 / 2" by simp
    finally have "(of_int m :: rat) < of_int (2 ^ 53)" using rb(2) by simp
    then show ?thesis by (simp only: of_int_less_iff)
  qed
  have pw: "0 < (2::rat) powi (e - 52)" by simp
  have err: "\<bar>of_int m * 2 powi (e - 52) - q\<bar> \<le> q / 2 ^ 53"
  proof -
    have "q = x * 2 powi (e - 52)" by (simp add: x_def)
    then have "of_int m * 2 powi (e - 52) - q = (of_int m - x) * 2 powi (e - 52)"
      by (simp add: algebra_simps)
    then have "\<bar>of_int m * 2 powi (e - 52) - q\<bar> = \<bar>of_int m - x\<bar> * 2 powi (e - 52)"
      by (simp add: abs_mult)
    also have "\<dots> \<le> 1 / 2 * 2 powi (e - 52)"
    proof -
      have "\<bar>of_int m - x\<bar> \<le> 1 / 2" using rb by linarith
      then show ?thesis by (intro mult_right_mono) simp_all
    qed
    also have "\<dots> = 2 powi e / 2 ^ 53"
      by (simp add: power_int_diff)
    also have "\<dots> \<le> q / 2 ^ 53" using b(1) by (simp add: divide_right_mono)
    finally show ?thesis .
  qed
  show ?thesis
  proof (cases "m = 2 ^ 53")
    case True
    with top have "e \<noteq> 1023" by auto
    with e_hi have e2: "e - 51 \<le> 971" by simp
    have e3: "- 9 \<le> e - 51" using e_lo by simp
    have res: "int_truediv n 1024 = Inr (Finite (Double False (2 ^ 52) (e - 51)))"
      using nd(3) True e2 n(1) by (simp add: int_truediv_def q_def)
    have "(of_int (2 ^ 52) :: rat) * 2 powi (e - 51) = of_int m * 2 powi (e - 52)"
      by (simp add: True power_int_diff)
    with err have err': "\<bar>of_int (2 ^ 52) * 2 powi (e - 51) - q\<bar> \<le> q / 2 ^ 53"
      by (simp only:)
    have m52: "(2::int) ^ 52 \<le> 2 ^ 52" "(2::int) ^ 52 < 2 ^ 53" by simp_all
    show ?thesis
      unfolding q_def [symmetric] using res m52 e3 e2 err' by blast
  next
    case False
    with nd(2) have mlt: "m < 2 ^ 53" by simp
    have e2: "e - 52 \<le> 971" using e_hi by simp
    have e3: "- 9 \<le> e - 52" using e_lo by simp
    have res: "int_truediv n 1024 = Inr (Finite (Double False m (e - 52)))"
      using nd(3) False e2 n(1) by (simp add: int_truediv_def q_def)
    show ?thesis
      unfolding q_def [symmetric] using res nd(1) mlt e3 e2 err by blast
  qed
qed

lemma format_units_float:
  "- 1074 \<le> e - 10 * int (length us) \<Longrightarrow>
   format_units (NFloat (Finite (Double False m e))) us =
     Inr (render (spec_escalate (of_int m * 2 powi e) us))"
proof (induction us arbitrary: e)
  case Nil
  show ?case by (simp add: render_def)
next
  case (Cons u us)
  have e10: "- 1074 \<le> e - 10" using Cons.prems by simp
  have ih: "format_units (NFloat (Finite (Double False m (e - 10)))) us =
     Inr (render (spec_escalate (of_int m * 2 powi (e - 10)) us))"
    using Cons.prems by (intro Cons.IH) simp
  have sc: "(of_int m :: rat) * 2 powi (e - 10) = of_int m * 2 powi e / 1024"
    by (simp add: power_int_diff)
  show ?case
  proof (cases "(of_int m :: rat) * 2 powi e < 1024")
    case True
    then show ?thesis by (simp add: render_def)
  next
    case False
    then show ?thesis using e10 ih by (simp add: sc not_less)
  qed
qed

lemma format_2f_small_int:
  assumes "0 \<le> n" "n < 2 ^ 53"
  shows "format_2f (NInt n) = Inr (fixed2 (of_int n))"
proof (cases "n = 0")
  case True
  then show ?thesis
    by (simp add: float_of_int_def int_truediv_def nearest_double_def)
next
  case False
  with assms have "0 < n" by simp
  from int_truediv_exact [OF this assms(2), of 0]
  obtain m e where "int_truediv n 1 = Inr (Finite (Double False m e))"
    "of_int m * 2 powi e = (of_int n :: rat)" by auto
  then show ?thesis by (simp add: float_of_int_def)
qed

lemma format_bytes_first_division:
  assumes "\<not> n < 1024" "int_truediv n 1024 = Inr f"
  shows "format_bytes self (PyInt n) = format_units (NFloat f) [''KB'', ''MB'', ''GB'', ''TB'']"
  using assms by (simp add: format_bytes_def format_units.simps(2) [of "NInt n"] del: format_units.simps)

lemma format_bytes_small:
  assumes "0 \<le> n" "n < 2 ^ 53"
  shows "format_bytes self (PyInt n) = Inr (spec_format (of_int n))"
proof (cases "n < 1024")
  case True
  then have "\<not> (1024 :: rat) \<le> of_int n"
    by (metis not_le of_int_less_iff of_int_numeral)
  with True assms format_2f_small_int [OF assms] show ?thesis
    by (simp add: format_bytes_def spec_format_def unit_names_def render_def
        del: format_2f.simps)
next
  case False
  then have ge: "(1024 :: rat) \<le> of_int n"
    by (metis not_le of_int_le_iff of_int_numeral)
  from False have "0 < n" by simp
  from int_truediv_exact [OF this assms(2), of 10]
  obtain m e where me: "int_truediv n 1024 = Inr (Finite (Double False m e))"
    "of_int m * 2 powi e = (of_int n / 1024 :: rat)" "- 62 \<le> e" by auto
  have "format_bytes self (PyInt n) =
          format_units (NFloat (Finite (Double False m e))) [''KB'', ''MB'', ''GB'', ''TB'']"
    using False me(1) by (rule format_bytes_first_division)
  also have "\<dots> = Inr (render (spec_escalate (of_int m * 2 powi e) [''KB'', ''MB'', ''GB'', ''TB'']))"
    using me(3) by (intro format_units_float) simp
  also have "spec_escalate (of_int m * 2 powi e) [''KB'', ''MB'', ''GB'', ''TB''] =
      spec_escalate (of_int n) unit_names"
    unfolding me(2) unit_names_def using ge
    by (simp add: spec_escalate.simps(2) [of "of_int n"] del: spec_escalate.simps)
  finally show ?thesis by (simp only: spec_format_def)
qed

lemma spec_escalate_petabytes:
  assumes "2 ^ 43 \<le> v"
  shows "spec_escalate v [''KB'', ''MB'', ''GB'', ''TB''] = (v / 1024 ^ 4, ''PB'')"
  using assms by simp

lemma format_bytes_large:
  assumes "2 ^ 53 \<le> n" "n < 2 ^ 1034 - 2 ^ 980"
  shows "format_bytes self (PyInt n) = Inr (fixed2 (truediv_value n / 1024 ^ 4) @ '' PB'') \<and>
         \<bar>truediv_value n - of_int n / 1024\<bar> \<le> of_int n / 1024 / 2 ^ 53"
proof -
  from int_truediv_large [OF assms]
  obtain m e where me: "int_truediv n 1024 = Inr (Finite (Double False m e))"
    "2 ^ 52 \<le> m" "- 9 \<le> e"
    "\<bar>of_int m * 2 powi e - (of_int n / 1024 :: rat)\<bar> \<le> of_int n / 1024 / 2 ^ 53" by blast
  define v :: rat where "v = of_int m * 2 powi e"
  have tv: "truediv_value n = v" by (simp add: truediv_value_def me(1) v_def)
  have "(2::rat) ^ 52 * 2 powi (- 9) \<le> of_int m * 2 powi e"
  proof (rule mult_mono)
    have "(of_int (2 ^ 52) :: rat) \<le> of_int m" using me(2) by (simp only: of_int_le_iff)
    then show "(2::rat) ^ 52 \<le> of_int m" by simp
    show "(2::rat) powi (- 9) \<le> 2 powi e" using me(3) by (intro power_int_increasing) simp_all
    show "0 \<le> (of_int m :: rat)" using me(2) by simp
  qed simp
  then have vlo: "2 ^ 43 \<le> v" by (simp add: v_def power_int_minus_divide)
  have nlt: "\<not> n < 1024" using assms(1) by simp
  have "format_bytes self (PyInt n) =
          format_units (NFloat (Finite (Double False m e))) [''KB'', ''MB'', ''GB'', ''TB'']"
    using nlt me(1) by (rule format_bytes_first_division)
  also have "\<dots> = Inr (render (spec_escalate v [''KB'', ''MB'', ''GB'', ''TB'']))"
    unfolding v_def using me(3) by (intro format_units_float) simp
  also have "\<dots> = Inr (fixed2 (v / 1024 ^ 4) @ '' PB'')"
    by (simp add: spec_escalate_petabytes [OF vlo] render_def del: spec_escalate.simps)
  finally have "format_bytes self (PyInt n) = Inr (fixed2 (truediv_value n / 1024 ^ 4) @ '' PB'')"
    by (simp only: tv)
  moreover have "\<bar>truediv_value n - of_int n / 1024\<bar> \<le> of_int n / 1024 / 2 ^ 53"
    using me(4) by (simp only: tv v_def)
  ultimately show ?thesis by (rule conjI)
qed

lemma digit_char_is_digit: "is_digit (digit_char d)"
  unfolding is_digit_def digit_char_def by (rule nth_mem) simp

lemma show_int_digits: "show_int n \<noteq> [] \<and> list_all is_digit (show_int n)"
proof (induction n rule: show_int.induct)
  case (1 n)
  show ?case
  proof (cases "n < 10")
    case True
    then show ?thesis by (simp add: show_int.simps [of n] digit_char_is_digit)
  next
    case False
    with "1.IH" show ?thesis by (simp add: show_int.simps [of n] digit_char_is_digit)
  qed
qed

lemma fixed2_shape:
  "\<exists>ds a b. fixed2 q = ds @ ''.'' @ [a, b] \<and> ds \<noteq> [] \<and> list_all is_digit ds \<and>
      is_digit a \<and> is_digit b"
  unfolding fixed2_def Let_def
  using show_int_digits digit_char_is_digit by blast

lemma format_bytes_float:
  assumes "wf_double (Double False m e)"
  shows "format_bytes self (PyFloat (Finite (Double False m e))) =
           Inr (spec_format (of_int m * 2 powi e))"
proof (cases "(of_int m :: rat) * 2 powi e < 1024")
  case True
  then show ?thesis
    by (simp add: format_bytes_def spec_format_def unit_names_def render_def)
next
  case False
  from assms have m: "0 \<le> m" "m < 2 ^ 53" by simp_all
  have "(of_int m :: rat) < of_int (2 ^ 53)" using m(2) by (simp only: of_int_less_iff)
  then have mr: "(of_int m :: rat) < 2 ^ 53" by simp
  have "(2::rat) powi 10 \<le> of_int m * 2 powi e" using False by simp
  also have "\<dots> \<le> 2 ^ 53 * 2 powi e"
    using mr by (intro mult_right_mono) simp_all
  also have "\<dots> = 2 powi (e + 53)" by (simp add: power_int_add)
  finally have "(2::rat) powi 10 \<le> 2 powi (e + 53)" .
  then have "(2::rat) powi 9 < 2 powi (e + 53)"
    by (rule less_le_trans [rotated]) simp
  then have "9 < e + 53" by (rule power_int_less_exp)
  then have "- 1074 \<le> e - 10 * int (length unit_names)" by (simp add: unit_names_def)
  then have "format_units (NFloat (Finite (Double False m e))) unit_names =
      Inr (render (spec_escalate (of_int m * 2 powi e) unit_names))"
    by (rule format_units_float)
  then show ?thesis
    by (simp add: format_bytes_def spec_format_def unit_names_def
        del: format_units.simps spec_escalate.simps)
qed

lemma format_bytes_bool:
  "format_bytes self (PyBool b) = Inr (spec_format (if b then 1 else 0))"
proof -
  have "format_bytes self (PyBool b) = format_bytes self (PyInt (if b then 1 else 0))"
    by (simp add: format_bytes_def)
  also have "\<dots> = Inr (spec_format (of_int (if b then 1 else 0)))"
    by (rule format_bytes_small) simp_all
  finally show ?thesis by (cases b) simp_all
qed

lemma spec_escalate_unit: "snd (spec_escalate v us) \<in> set (us @ [''PB''])"
  by (induction us arbitrary: v) auto

lemma format_bytes_formattable:
  assumes "formattable n"
  shows "\<exists>s. format_bytes self (PyInt n) = Inr s"
proof (cases "n < 2 ^ 53")
  case True
  with assms format_bytes_small [of n self] show ?thesis by (simp add: formattable_def)
next
  case False
  with assms format_bytes_large [of n self] show ?thesis by (simp add: formattable_def)
qed

lemma int_truediv_overflow_example: "int_truediv (2 ^ 1034) 1024 = Inl OverflowError"
proof -
  define q :: rat where "q = 2 ^ 1024"
  have qpos: "0 < q" by (simp add: q_def)
  have b: "2 powi 1024 \<le> q" "q < 2 powi (1024 + 1)" by (simp_all add: q_def)
  have x: "q / (2 powi (1024 - 52)) = of_int (2 ^ 52)" by (simp add: q_def)
  have m: "round_half_even (q / (2 powi (1024 - 52))) = 2 ^ 52"
    by (simp only: x round_half_even_of_int)
  from nearest_double_normal [OF qpos b, of False] m
  have "nearest_double False q = Inf False" by simp
  moreover have "\<bar>of_int (2 ^ 1034)\<bar> / of_int 1024 = q" by (simp add: q_def)
  ultimately show ?thesis by (simp add: int_truediv_def del: of_int_power)
qed

lemma spec_format_examples:
  "spec_format 0 = ''0.00 B''"
  "spec_format 1024 = ''1.00 KB''"
  "spec_format 1536 = ''1.50 KB''"
  "spec_format (1024 ^ 4) = ''1.00 TB''"
  by code_simp+

lemma petabyte_example:
  "fixed2 (truediv_value (2 ^ 60) / 1024 ^ 4) @ '' PB'' = ''1024.00 PB''"
  by code_simp

section \<open>The byte formatter: claims\<close>

text \<open>
  C8. Formatter non-numeric input: a value that is not an \<^verbatim>\<open>int\<close> (or
  \<^verbatim>\<open>bool\<close>, its subclass) and not a \<^verbatim>\<open>float\<close> is rendered as the literal
  \<open>N/A\<close> and nothing is raised; in particular \<^verbatim>\<open>None\<close>, every string, every
  list and every dictionary.
\<close>

theorem format_bytes_non_numeric:
  "(\<not> isinstance_int_float v \<longrightarrow> format_bytes self v = Inr ''N/A'') \<and>
   format_bytes self PyNone = Inr ''N/A'' \<and>
   format_bytes self (PyStr s) = Inr ''N/A'' \<and>
   format_bytes self (PyList xs) = Inr ''N/A'' \<and>
   format_bytes self (PyDict kvs) = Inr ''N/A'' \<and>
   (isinstance_int_float v \<longleftrightarrow> (\<exists>n. v = PyInt n) \<or> (\<exists>b. v = PyBool b) \<or> (\<exists>f. v = PyFloat f))"
  by (cases v) (simp_all add: format_bytes_def isinstance_int_float_def)

theorem format_bytes_non_numeric_witness:
  "\<not> isinstance_int_float (PyStr ''not a number'') \<and>
   format_bytes [] (PyStr ''not a number'') = Inr ''N/A'' \<and>
   format_bytes [] PyNone = Inr ''N/A''"
  using format_bytes_non_numeric [of "PyStr ''not a number''" "[]" "''not a number''"]
  by (simp add: isinstance_int_float_def)

text \<open>
  C4, as the code has it. For every \<^verbatim>\<open>int\<close> byte count \<open>n\<close> with
  \<open>0 \<le> n < 2^1034 - 2^980\<close> the formatter returns value, space, unit:
  \<^item> below \<open>2^53\<close> the arithmetic is exact and the result is the specification's:
    divide by 1024 while the value is at least 1024, from B up to PB, two decimals;
  \<^item> from \<open>2^53\<close> on the unit is PB and the value shown is the float nearest to
    \<open>n / 1024\<close> (relative error at most \<open>2^-53\<close>) divided by \<open>1024^4\<close>;
  \<^item> a finite non-negative float and a \<^verbatim>\<open>bool\<close> are rendered exactly as the
    specification says;
  \<^item> the rendered value always has a non-empty integer part, a point and exactly two
    digits, and the unit is one of B, KB, MB, GB, TB, PB.
\<close>

theorem format_bytes_contract:
  "(0 \<le> n \<and> n < 2 ^ 53 \<longrightarrow> format_bytes self (PyInt n) = Inr (spec_format (of_int n))) \<and>
   (2 ^ 53 \<le> n \<and> n < 2 ^ 1034 - 2 ^ 980 \<longrightarrow>
      format_bytes self (PyInt n) = Inr (fixed2 (truediv_value n / 1024 ^ 4) @ '' PB'') \<and>
      \<bar>truediv_value n - of_int n / 1024\<bar> \<le> of_int n / 1024 / 2 ^ 53) \<and>
   (wf_double (Double False m e) \<longrightarrow>
      format_bytes self (PyFloat (Finite (Double False m e))) =
        Inr (spec_format (of_int m * 2 powi e))) \<and>
   format_bytes self (PyBool b) = Inr (spec_format (if b then 1 else 0)) \<and>
   (\<exists>ds a c. fixed2 q = ds @ ''.'' @ [a, c] \<and> ds \<noteq> [] \<and> list_all is_digit ds \<and>
      is_digit a \<and> is_digit c) \<and>
   snd (spec_escalate v unit_names) \<in> set (unit_names @ [''PB''])"
  using format_bytes_small [of n self] format_bytes_large [of n self]
    format_bytes_float [of m e self] format_bytes_bool [of self b]
    fixed2_shape [of q] spec_escalate_unit [of v unit_names]
  by blast

theorem format_bytes_contract_witness:
  "format_bytes [] (PyInt 0) = Inr ''0.00 B'' \<and>
   format_bytes [] (PyInt 1024) = Inr ''1.00 KB'' \<and>
   format_bytes [] (PyInt 1536) = Inr ''1.50 KB'' \<and>
   format_bytes [] (PyInt (1024 ^ 4)) = Inr ''1.00 TB'' \<and>
   format_bytes [] (PyInt (2 ^ 60)) = Inr ''1024.00 PB'' \<and>
   format_bytes [] (PyFloat (Finite (Double False 3 9))) = Inr ''1.50 KB''"
proof -
  have a: "format_bytes [] (PyInt 0) = Inr ''0.00 B''"
    using format_bytes_contract [of 0 "[]"] spec_format_examples(1) by simp
  have b: "format_bytes [] (PyInt 1024) = Inr ''1.00 KB''"
    using format_bytes_contract [of 1024 "[]"] spec_format_examples(2) by simp
  have c: "format_bytes [] (PyInt 1536) = Inr ''1.50 KB''"
    using format_bytes_contract [of 1536 "[]"] spec_format_examples(3) by simp
  have d: "format_bytes [] (PyInt (1024 ^ 4)) = Inr ''1.00 TB''"
    using format_bytes_contract [of "1024 ^ 4" "[]"] spec_format_examples(4) by simp
  have e: "format_bytes [] (PyInt (2 ^ 60)) = Inr ''1024.00 PB''"
    using format_bytes_contract [of "2 ^ 60" "[]"] petabyte_example by simp
  have f: "format_bytes [] (PyFloat (Finite (Double False 3 9))) = Inr ''1.50 KB''"
    using format_bytes_contract [of _ "[]" 3 9] spec_format_examples(3) by simp
  from a b c d e f show ?thesis by blast
qed

text \<open>
  C4 as stated fails beyond the range of a float: \<open>2^1034\<close> is a non-negative
  \<^verbatim>\<open>int\<close> of a petabyte or more, and its first division by 1024 raises
  \<^verbatim>\<open>OverflowError\<close> instead of yielding a value in PB.
\<close>

theorem format_bytes_overflow_counterexample:
  "(0::int) \<le> 2 ^ 1034 \<and> format_bytes [] (PyInt (2 ^ 1034)) = Inl OverflowError"
  using int_truediv_overflow_example by (simp add: format_bytes_def)

section \<open>Facts about the collectors\<close>

subsection \<open>Disk\<close>

lemma and_then_Inr [simp]: "and_then (Inr x) f = f x"
  by (simp add: and_then_def)

lemma and_then_Inl [simp]: "and_then (Inl err) f = Inl err"
  by (simp add: and_then_def)

lemma formatted_formattable:
  assumes "formattable n"
  shows "\<exists>s. format_bytes self (PyInt n) = Inr s \<and> formatted self n = Inr (PyStr s)"
  using format_bytes_formattable [OF assms, of self] by (auto simp: formatted_def)

lemma format_bytes_self: "format_bytes self v = format_bytes [] v"
  by (simp add: format_bytes_def)

lemma partition_entry_readable:
  assumes "usage_formattable u"
  shows "\<exists>d. partition_entry self p u = Inr d \<and> partition_fields p u d"
proof -
  from assms have f: "formattable (du_total u)" "formattable (du_used u)" "formattable (du_free u)"
    by (simp_all add: usage_formattable_def)
  from formatted_formattable [OF f(1), of self] obtain t
    where t: "format_bytes self (PyInt (du_total u)) = Inr t" "formatted self (du_total u) = Inr (PyStr t)"
    by blast
  from formatted_formattable [OF f(2), of self] obtain us
    where us: "format_bytes self (PyInt (du_used u)) = Inr us" "formatted self (du_used u) = Inr (PyStr us)"
    by blast
  from formatted_formattable [OF f(3), of self] obtain fr
    where fr: "format_bytes self (PyInt (du_free u)) = Inr fr" "formatted self (du_free u) = Inr (PyStr fr)"
    by blast
  from t(1) us(1) fr(1) have g: "format_bytes [] (PyInt (du_total u)) = Inr t"
    "format_bytes [] (PyInt (du_used u)) = Inr us" "format_bytes [] (PyInt (du_free u)) = Inr fr"
    by (simp_all add: format_bytes_self [of self])
  show ?thesis
    by (simp add: partition_entry_def t(2) us(2) fr(2) partition_fields_def g)
qed

lemma try_partition_readable:
  assumes "usage_readable h p"
  shows "\<exists>d. try_partition self h p = Inr d \<and> describes_partition h p d"
proof -
  from assms obtain u where u: "disk_usage h (mountpoint p) = Inr u" "usage_formattable u"
    by (auto simp: usage_readable_def split: sum.splits)
  from partition_entry_readable [OF u(2), of self p] u(1) show ?thesis
    by (simp add: try_partition_def describes_partition_def)
qed

lemma try_partition_denied:
  assumes "usage_denied h p"
  shows "\<exists>err. try_partition self h p = Inl err \<and> is_OSError err"
  using assms by (auto simp: usage_denied_def try_partition_def split: sum.splits)

lemma collect_partitions_isolated:
  assumes "\<forall>p \<in> set ps. usage_denied h p \<or> usage_readable h p"
  shows "\<exists>es. collect_partitions self h ps acc = Inr (acc @ es) \<and>
           list_all2 (describes_partition h) (filter (usage_readable h) ps) es"
  using assms
proof (induction ps arbitrary: acc)
  case Nil
  show ?case by simp
next
  case (Cons p ps)
  from Cons.prems have rest: "\<forall>p \<in> set ps. usage_denied h p \<or> usage_readable h p" by simp
  show ?case
  proof (cases "usage_readable h p")
    case True
    from try_partition_readable [OF True, of self] obtain d
      where d: "try_partition self h p = Inr d" "describes_partition h p d" by blast
    from Cons.IH [OF rest, of "acc @ [d]"] obtain es
      where es: "collect_partitions self h ps (acc @ [d]) = Inr ((acc @ [d]) @ es)"
        "list_all2 (describes_partition h) (filter (usage_readable h) ps) es" by blast
    show ?thesis
      using True d es by (intro exI [of _ "d # es"]) simp
  next
    case False
    with Cons.prems have "usage_denied h p" by simp
    from try_partition_denied [OF this, of self] obtain err
      where err: "try_partition self h p = Inl err" "is_OSError err" by blast
    from Cons.IH [OF rest, of acc] obtain es
      where es: "collect_partitions self h ps acc = Inr (acc @ es)"
        "list_all2 (describes_partition h) (filter (usage_readable h) ps) es" by blast
    show ?thesis
      using False err es by (intro exI [of _ es]) simp
  qed
qed

lemma denied_not_readable: "usage_denied h p \<Longrightarrow> \<not> usage_readable h p"
  by (auto simp: usage_denied_def usage_readable_def split: sum.splits)

lemma count_accessible:
  assumes "\<forall>p \<in> set ps. usage_denied h p \<or> usage_readable h p"
  shows "length (filter (usage_readable h) ps) = length ps - length (filter (usage_denied h) ps)"
proof -
  have "filter (usage_denied h) ps = filter (\<lambda>p. \<not> usage_readable h p) ps"
    using assms denied_not_readable by (intro filter_cong) auto
  then have "length (filter (usage_readable h) ps) + length (filter (usage_denied h) ps) = length ps"
    by (simp add: sum_length_filter_compl)
  then show ?thesis by simp
qed

lemma main_disk_section_ok:
  assumes "usage_formattable u"
  shows "\<exists>d. main_disk_section self u = Inr d"
proof -
  from assms have f: "formattable (du_total u)" "formattable (du_used u)" "formattable (du_free u)"
    by (simp_all add: usage_formattable_def)
  from formatted_formattable [OF f(1), of self] formatted_formattable [OF f(2), of self]
    formatted_formattable [OF f(3), of self]
  show ?thesis by (auto simp: main_disk_section_def)
qed

lemma io_section_ok:
  assumes "io_formattable io"
  shows "\<exists>d. io_section self io = Inr d"
proof (cases io)
  case None
  then show ?thesis by (simp add: io_section_def)
next
  case (Some c)
  with assms have f: "formattable (read_bytes c)" "formattable (write_bytes c)"
    by (simp_all add: io_formattable_def)
  from formatted_formattable [OF f(1), of self] formatted_formattable [OF f(2), of self] Some
  show ?thesis by (auto simp: io_section_def)
qed

lemma io_section_None: "io_section self None = Inr io_unavailable"
  by (simp add: io_section_def io_unavailable_def)

lemma get_disk_info_result:
  assumes rootfs: "disk_usage h ''/'' = Inr rootfs" "usage_formattable rootfs"
    and io: "disk_io_counters h = Inr io" "io_formattable io"
    and parts: "disk_partitions h = Inr listed"
      "\<forall>p \<in> set listed. usage_denied h p \<or> usage_readable h p"
  shows "\<exists>main_disk io_d entries.
           main_disk_section self rootfs = Inr main_disk \<and> io_section self io = Inr io_d \<and>
           get_disk_info self h =
             Inr (PyDict [(''main_disk'', main_disk), (''io'', io_d),
                          (''partitions'', PyList entries)]) \<and>
           list_all2 (describes_partition h) (filter (usage_readable h) listed) entries"
proof -
  from main_disk_section_ok [OF rootfs(2), of self] obtain md
    where md: "main_disk_section self rootfs = Inr md" by blast
  from io_section_ok [OF io(2), of self] obtain iod
    where iod: "io_section self io = Inr iod" by blast
  from collect_partitions_isolated [OF parts(2), of self "[]"] obtain es
    where es: "collect_partitions self h listed [] = Inr es"
      "list_all2 (describes_partition h) (filter (usage_readable h) listed) es" by auto
  show ?thesis
    using md iod es by (simp add: get_disk_info_def rootfs(1) io(1) parts(1))
qed

subsection \<open>Network\<close>

lemma interface_entry_present:
  assumes "formattable (bytes_sent io)" "formattable (bytes_recv io)"
  shows "\<exists>d. interface_entry self (fst item) (snd item) io = Inr d \<and> interface_fields item io d"
proof -
  from formatted_formattable [OF assms(1), of self] obtain a
    where a: "format_bytes self (PyInt (bytes_sent io)) = Inr a"
      "formatted self (bytes_sent io) = Inr (PyStr a)" by blast
  from formatted_formattable [OF assms(2), of self] obtain b
    where b: "format_bytes self (PyInt (bytes_recv io)) = Inr b"
      "formatted self (bytes_recv io) = Inr (PyStr b)" by blast
  from a(1) b(1) have g: "format_bytes [] (PyInt (bytes_sent io)) = Inr a"
    "format_bytes [] (PyInt (bytes_recv io)) = Inr b"
    by (simp_all add: format_bytes_self [of self])
  show ?thesis
    by (simp add: interface_entry_def a(2) b(2) interface_fields_def g)
qed

lemma try_interface_present:
  assumes "counters_present h item"
  shows "\<exists>d. try_interface self h (fst item) (snd item) = Inr (Some d) \<and> describes_interface h item d"
proof -
  from assms obtain io where io: "pernic_lookup h (fst item) = Inr (Some io)"
    "formattable (bytes_sent io)" "formattable (bytes_recv io)"
    by (auto simp: counters_present_def split: sum.splits option.splits)
  from interface_entry_present [OF io(2,3), of self item] io(1) show ?thesis
    by (auto simp: try_interface_def describes_interface_def)
qed

lemma try_interface_missing:
  assumes "counters_missing h item"
  shows "try_interface self h (fst item) (snd item) = Inr None \<or>
         (\<exists>err. try_interface self h (fst item) (snd item) = Inl err \<and> is_lookup_error err)"
  using assms by (auto simp: counters_missing_def try_interface_def split: sum.splits option.splits)

lemma present_not_missing: "counters_present h item \<Longrightarrow> \<not> counters_missing h item"
  by (auto simp: counters_present_def counters_missing_def split: sum.splits option.splits)

lemma collect_interfaces_filtered:
  assumes "\<forall>item \<in> set items. is_down item \<or> counters_missing h item \<or> counters_present h item"
  shows "\<exists>es. collect_interfaces self h items acc = Inr (acc @ es) \<and>
           list_all2 (describes_interface h) (filter (reported h) items) es"
  using assms
proof (induction items arbitrary: acc)
  case Nil
  show ?case by simp
next
  case (Cons item items)
  obtain name stats where item: "item = (name, stats)" by (cases item)
  from Cons.prems have rest:
    "\<forall>item \<in> set items. is_down item \<or> counters_missing h item \<or> counters_present h item"
    by simp
  show ?case
  proof (cases "reported h item")
    case True
    then have up: "isup stats" and pr: "counters_present h item"
      by (simp_all add: reported_def item)
    from try_interface_present [OF pr, of self] obtain d
      where d: "try_interface self h name stats = Inr (Some d)" "describes_interface h item d"
      by (auto simp: item)
    from Cons.IH [OF rest, of "acc @ [d]"] obtain es
      where es: "collect_interfaces self h items (acc @ [d]) = Inr ((acc @ [d]) @ es)"
        "list_all2 (describes_interface h) (filter (reported h) items) es" by blast
    show ?thesis
      using True up d es by (intro exI [of _ "d # es"]) (simp add: item)
  next
    case False
    from Cons.IH [OF rest, of acc] obtain es
      where es: "collect_interfaces self h items acc = Inr (acc @ es)"
        "list_all2 (describes_interface h) (filter (reported h) items) es" by blast
    show ?thesis
    proof (cases "isup stats")
      case down: False
      with False es show ?thesis by (intro exI [of _ es]) (simp add: item)
    next
      case up: True
      with False have "\<not> counters_present h item" by (simp add: reported_def item)
      with Cons.prems up have "counters_missing h item" by (simp add: is_down_def item)
      from try_interface_missing [OF this, of self]
      have "try_interface self h name stats = Inr None \<or>
         (\<exists>err. try_interface self h name stats = Inl err \<and> is_lookup_error err)"
        by (simp add: item)
      with False up es show ?thesis by (intro exI [of _ es]) (auto simp: item)
    qed
  qed
qed

lemma total_section_ok:
  assumes "formattable (bytes_sent io)" "formattable (bytes_recv io)"
  shows "\<exists>d. total_section self (Some io) = Inr d"
  using formatted_formattable [OF assms(1), of self] formatted_formattable [OF assms(2), of self]
  by (auto simp: total_section_def)

subsection \<open>Processes\<close>

lemma process_entry_lost:
  assumes "create_time_known p" "detail_lost p"
  shows "\<exists>err. process_entry self p = Inl err \<and> is_process_gone err"
  using assms
  by (auto simp: create_time_known_def detail_lost_def process_entry_def split: sum.splits)

lemma process_entry_read:
  assumes "create_time_known p" "detail_read p"
  shows "\<exists>d. process_entry self p = Inr d \<and> process_fields p d"
proof -
  from assms(1) obtain ct where ct: "create_time_value p = Inr ct"
    by (auto simp: create_time_known_def split: sum.splits)
  from assms(2) obtain rss where rss: "proc_memory_info p = Inr rss" "formattable rss"
    by (auto simp: detail_read_def split: sum.splits)
  from formatted_formattable [OF rss(2), of self] obtain s
    where s: "format_bytes self (PyInt rss) = Inr s" "formatted self rss = Inr (PyStr s)" by blast
  from s(1) have g: "format_bytes [] (PyInt rss) = Inr s" by (simp add: format_bytes_self [of self])
  show ?thesis
    by (simp add: process_entry_def ct rss(1) s(2) process_fields_def g)
qed

lemma lost_not_read: "detail_lost p \<Longrightarrow> \<not> detail_read p"
  by (auto simp: detail_lost_def detail_read_def split: sum.splits)

lemma collect_processes_isolated:
  assumes "\<forall>p \<in> set ps. well_behaved p"
  shows "\<exists>es. collect_processes self ps acc = Inr (acc @ es) \<and>
           list_all2 process_fields (filter detail_read ps) es"
  using assms
proof (induction ps arbitrary: acc)
  case Nil
  show ?case by simp
next
  case (Cons p ps)
  from Cons.prems have rest: "\<forall>p \<in> set ps. well_behaved p" by simp
  from Cons.prems have p: "create_time_known p" "detail_lost p \<or> detail_read p"
    by (simp_all add: well_behaved_def)
  show ?case
  proof (cases "detail_read p")
    case True
    from process_entry_read [OF p(1) True, of self] obtain d
      where d: "process_entry self p = Inr d" "process_fields p d" by blast
    from Cons.IH [OF rest, of "acc @ [d]"] obtain es
      where es: "collect_processes self ps (acc @ [d]) = Inr ((acc @ [d]) @ es)"
        "list_all2 process_fields (filter detail_read ps) es" by blast
    show ?thesis
      using True d es by (intro exI [of _ "d # es"]) simp
  next
    case False
    with p(2) have "detail_lost p" by simp
    from process_entry_lost [OF p(1) this, of self] obtain err
      where err: "process_entry self p = Inl err" "is_process_gone err" by blast
    from Cons.IH [OF rest, of acc] obtain es
      where es: "collect_processes self ps acc = Inr (acc @ es)"
        "list_all2 process_fields (filter detail_read ps) es" by blast
    show ?thesis
      using False err es by (intro exI [of _ es]) simp
  qed
qed

lemma collect_processes_never_gone:
  "collect_processes self ps acc = Inl err \<Longrightarrow> \<not> is_process_gone err"
  by (induction ps arbitrary: acc) (auto split: sum.splits if_splits)

subsection \<open>Ranking\<close>

lemma sorted_reverse_descending: "descending key (sorted_reverse key xs)"
proof -
  have "sorted (map key (sort_key key (rev xs)))" by simp
  then have "sorted_wrt (\<lambda>a b. key a \<le> key b) (sort_key key (rev xs))"
    by (simp add: sorted_map)
  then have "sorted_wrt (\<lambda>a b. key b \<le> key a) (rev (sort_key key (rev xs)))"
    by (simp add: sorted_wrt_rev)
  then show ?thesis by (simp add: descending_def sorted_reverse_def)
qed

lemma sorted_reverse_stable:
  "filter (\<lambda>x. key x = k) (sorted_reverse key xs) = filter (\<lambda>x. key x = k) xs"
proof -
  have "filter (\<lambda>x. key x = k) (sorted_reverse key xs) =
          rev (filter (\<lambda>x. key x = k) (sort_key key (rev xs)))"
    by (simp add: sorted_reverse_def rev_filter)
  also have "\<dots> = rev (filter (\<lambda>x. key x = k) (rev xs))"
    by (simp only: sort_key_stable)
  also have "\<dots> = filter (\<lambda>x. key x = k) xs"
    by (simp add: rev_filter)
  finally show ?thesis .
qed

lemma sorted_reverse_mset: "mset (sorted_reverse key xs) = mset xs"
  by (simp add: sorted_reverse_def)

lemma sorted_reverse_length: "length (sorted_reverse key xs) = length xs"
  by (simp add: sorted_reverse_def)

lemma descending_take: "descending key xs \<Longrightarrow> descending key (take n xs)"
  by (simp add: descending_def sorted_wrt_take)

lemma descending_filter: "descending key xs \<Longrightarrow> descending key (filter P xs)"
  by (simp add: descending_def sorted_wrt_filter)

lemma slice_to_take: "0 \<le> n \<Longrightarrow> slice_to n xs = take (nat n) xs"
  by (simp add: slice_to_def)

lemma slice_to_subset: "set (slice_to n xs) \<subseteq> set xs"
  by (auto simp: slice_to_def dest: in_set_takeD)

lemma descending_slice: "descending key xs \<Longrightarrow> descending key (slice_to n xs)"
  by (simp add: slice_to_def descending_take)

lemma entry_cpu_key_fields: "process_fields p d \<Longrightarrow> entry_cpu_key d = cpu_key p"
  by (auto simp: process_fields_def entry_cpu_key_def cpu_key_def opt_float_def split: option.splits)

lemma entries_keys:
  "list_all2 process_fields ps es \<Longrightarrow> map entry_cpu_key es = map cpu_key ps"
  by (induction rule: list_all2_induct) (simp_all add: entry_cpu_key_fields)

lemma descending_entries:
  assumes "list_all2 process_fields ps es" "descending cpu_key ps"
  shows "descending entry_cpu_key es"
proof -
  from assms(2) have "sorted_wrt (\<lambda>a b. b \<le> a) (map cpu_key ps)"
    by (simp add: descending_def sorted_wrt_map)
  then have "sorted_wrt (\<lambda>a b. b \<le> a) (map entry_cpu_key es)"
    by (simp only: entries_keys [OF assms(1)])
  then show ?thesis by (simp add: descending_def sorted_wrt_map)
qed

lemma get_process_info_result:
  assumes "iter = Inr procs" "\<forall>p \<in> set procs. well_behaved p"
  shows "\<exists>es. get_process_info self iter top_n = Inr es \<and>
           list_all2 process_fields (filter detail_read (ranked top_n procs)) es"
proof -
  have "set (ranked top_n procs) \<subseteq> set procs"
    using slice_to_subset [of top_n "sorted_reverse cpu_key procs"]
    by (simp add: ranked_def sorted_reverse_def)
  with assms(2) have "\<forall>p \<in> set (ranked top_n procs). well_behaved p" by blast
  from collect_processes_isolated [OF this, of self "[]"] show ?thesis
    by (simp add: get_process_info_def assms(1) ranked_def)
qed

subsection \<open>Snapshot facts\<close>

lemma collect_processes_success:
  "collect_processes self ps acc = Inr res \<Longrightarrow>
   \<exists>es. res = acc @ es \<and> length es = length (filter (entry_emitted self) ps)"
proof (induction ps arbitrary: acc)
  case Nil
  then show ?case by simp
next
  case (Cons p ps)
  show ?case
  proof (cases "process_entry self p")
    case (Inl err)
    then have em: "\<not> entry_emitted self p" by (simp add: entry_emitted_def)
    from Inl Cons.prems have "collect_processes self ps acc = Inr res"
      by (simp split: if_splits)
    from Cons.IH [OF this] em show ?thesis by simp
  next
    case (Inr d)
    then have em: "entry_emitted self p" by (simp add: entry_emitted_def)
    from Inr Cons.prems have "collect_processes self ps (acc @ [d]) = Inr res" by simp
    from Cons.IH [OF this] obtain es
      where "res = (acc @ [d]) @ es" "length es = length (filter (entry_emitted self) ps)"
      by blast
    with em show ?thesis by (intro exI [of _ "d # es"]) simp
  qed
qed

lemma length_filter_eq_iff: "length (filter P xs) = length xs \<longleftrightarrow> (\<forall>x \<in> set xs. P x)"
proof (induction xs)
  case Nil
  show ?case by simp
next
  case (Cons x xs)
  have le: "length (filter P xs) < Suc (length xs)"
    using length_filter_le [of P xs] by linarith
  show ?case
  proof (cases "P x")
    case True
    with Cons show ?thesis by simp
  next
    case False
    from le have "length (filter P xs) \<noteq> Suc (length xs)" by linarith
    with False show ?thesis by simp
  qed
qed

lemma length_ranked: "0 \<le> n \<Longrightarrow> length (ranked n procs) = min (nat n) (length procs)"
  by (simp add: ranked_def slice_to_take sorted_reverse_length)

lemma get_cpu_info_success:
  assumes "get_cpu_info self h = Inr d"
  shows "\<exists>count per_cpu. cpu_count h = Inr count \<and> cpu_percent_percpu h = Inr per_cpu \<and>
           dict_get d ''cpu_count'' = Some (case count of None \<Rightarrow> PyNone | Some c \<Rightarrow> PyInt c) \<and>
           dict_get d ''per_cpu'' = Some (PyList (map (\<lambda>x. PyFloat (Finite x)) per_cpu))"
  using assms by (auto simp: get_cpu_info_def and_then_def split: sum.splits)

lemma get_all_info_parts:
  assumes "get_all_info self H = Inr snapshot"
  shows "\<exists>system cpu_d memory disk_d network_d processes.
           get_cpu_info self (host_cpu H) = Inr cpu_d \<and>
           get_process_info self (host_process_iter H) 10 = Inr processes \<and>
           snapshot = PyDict
             [(''timestamp'', PyStr (host_now H)), (''system'', system), (''cpu'', cpu_d),
              (''memory'', memory), (''disk'', disk_d), (''network'', network_d),
              (''processes'', PyList processes)]"
  using assms by (auto simp: get_all_info_def and_then_def split: sum.splits)

lemma get_all_info_success:
  assumes "get_cpu_info self (host_cpu H) = Inr cpu_d"
    "get_memory_info self (host_virtual_memory H) = Inr memory"
    "get_disk_info self (host_disk H) = Inr disk_d"
    "get_network_info self (host_network H) = Inr network_d"
    "get_process_info self (host_process_iter H) 10 = Inr processes"
  shows "\<exists>system. get_all_info self H = Inr (PyDict
             [(''timestamp'', PyStr (host_now H)), (''system'', system), (''cpu'', cpu_d),
              (''memory'', memory), (''disk'', disk_d), (''network'', network_d),
              (''processes'', PyList processes)])"
  using assms by (simp add: get_all_info_def get_system_info_def)

lemma get_process_info_success:
  assumes "get_process_info self iter top_n = Inr entries"
  shows "\<exists>procs. iter = Inr procs \<and>
           length entries = length (filter (entry_emitted self) (ranked top_n procs))"
proof -
  from assms obtain procs where p: "iter = Inr procs"
    by (cases iter) (simp_all add: get_process_info_def)
  with assms have "collect_processes self (ranked top_n procs) [] = Inr entries"
    by (simp add: get_process_info_def ranked_def)
  from collect_processes_success [OF this] p show ?thesis by auto
qed

lemma get_process_info_never_gone:
  assumes "iter = Inr procs" "is_process_gone err"
  shows "get_process_info self iter top_n \<noteq> Inl err"
  using assms collect_processes_never_gone [of self _ "[]" err]
  by (auto simp: get_process_info_def)

subsection \<open>Concrete evaluations\<close>

lemmas sample_defs =
  sample_usage_def sample_partitions_def sample_disk_def root_denied_partitions_def
  root_denied_disk_def sample_counters_def sample_interfaces_def sample_network_def
  idle_process_def busy_process_def vanished_process_def sample_processes_def
  sample_cpu_def sample_platform_def sample_memory_def vanishing_host_def

lemma sample_disk_facts:
  "disk_usage sample_disk ''/'' = Inr sample_usage"
  "usage_formattable sample_usage"
  "disk_io_counters sample_disk = Inr None"
  "io_formattable None"
  "disk_partitions sample_disk = Inr sample_partitions"
  "\<forall>p \<in> set sample_partitions. usage_denied sample_disk p \<or> usage_readable sample_disk p"
  by (simp_all add: disk_usage_def usage_formattable_def formattable_def io_formattable_def
      usage_denied_def usage_readable_def is_OSError_def sample_defs)

lemma sample_disk_counts:
  "length sample_partitions = 3"
  "length (filter (usage_denied sample_disk) sample_partitions) = 1"
  by (simp_all add: disk_usage_def usage_denied_def is_OSError_def sample_defs)

lemma vanishing_host_collectors:
  "host_disk vanishing_host = sample_disk"
  "get_cpu_info [] (host_cpu vanishing_host) =
     Inr (PyDict
       [(''cpu_percent'', PyFloat (Finite (Double False 25 (- 1)))),
        (''cpu_count'', PyInt 2), (''cpu_freq'', PyStr ''N/A''),
        (''per_cpu'', PyList [PyFloat (Finite (Double False 25 0)),
                              PyFloat (Finite (Double False 0 0))])])"
  "get_memory_info [] (host_virtual_memory vanishing_host) =
     Inr (PyDict
       [(''total'', PyInt 4096), (''available'', PyInt 1024), (''used'', PyInt 3072),
        (''percent'', PyFloat (Finite (Double False 75 0))),
        (''total_formatted'', PyStr ''4.00 KB''),
        (''available_formatted'', PyStr ''1.00 KB''),
        (''used_formatted'', PyStr ''3.00 KB'')])"
  "get_process_info [] (host_process_iter vanishing_host) 10 = Inr []"
  by code_simp+

lemma sample_network_result:
  "get_network_info [] sample_network =
     Inr (PyDict
       [(''total'', PyDict
           [(''bytes_sent'', PyInt 1536), (''bytes_recv'', PyInt 1024),
            (''packets_sent'', PyInt 3), (''packets_recv'', PyInt 2),
            (''bytes_sent_formatted'', PyStr ''1.50 KB''),
            (''bytes_recv_formatted'', PyStr ''1.00 KB'')]),
        (''interfaces'', PyList
           [PyDict
              [(''name'', PyStr ''lo''), (''speed'', PyInt 0), (''mtu'', PyInt 65536),
               (''bytes_sent'', PyInt 1536), (''bytes_recv'', PyInt 1024),
               (''bytes_sent_formatted'', PyStr ''1.50 KB''),
               (''bytes_recv_formatted'', PyStr ''1.00 KB'')],
            PyDict
              [(''name'', PyStr ''eth0''), (''speed'', PyInt 1000), (''mtu'', PyInt 1500),
               (''bytes_sent'', PyInt 1536), (''bytes_recv'', PyInt 1024),
               (''bytes_sent_formatted'', PyStr ''1.50 KB''),
               (''bytes_recv_formatted'', PyStr ''1.00 KB'')]])])"
  by code_simp

lemma sample_network_facts:
  "net_io_counters sample_network = Inr (Some sample_counters)"
  "formattable (bytes_sent sample_counters)"
  "formattable (bytes_recv sample_counters)"
  "net_if_stats sample_network = Inr sample_interfaces"
  "\<forall>item \<in> set sample_interfaces.
     is_down item \<or> counters_missing sample_network item \<or> counters_present sample_network item"
  by (simp_all add: formattable_def is_down_def counters_missing_def counters_present_def
      pernic_lookup_def is_lookup_error_def sample_defs)

lemma sample_reported:
  "filter (reported sample_network) sample_interfaces =
     [(''lo'', \<lparr>isup = True, speed = 0, mtu = 65536\<rparr>),
      (''eth0'', \<lparr>isup = True, speed = 1000, mtu = 1500\<rparr>)]"
  by (simp add: formattable_def reported_def counters_present_def pernic_lookup_def sample_defs)

lemma sample_processes_facts:
  "\<forall>p \<in> set sample_processes. well_behaved p"
  by (simp add: well_behaved_def create_time_known_def create_time_value_def truthy_float_def
      detail_lost_def detail_read_def is_process_gone_def formattable_def sample_defs)

lemma sample_ranking:
  "sorted_reverse cpu_key sample_processes = [vanished_process, busy_process, idle_process]"
  by code_simp

lemma sample_detail:
  "detail_lost vanished_process" "detail_read busy_process" "detail_read idle_process"
  "\<not> detail_read vanished_process"
  by (simp_all add: detail_lost_def detail_read_def is_process_gone_def formattable_def sample_defs)

section \<open>The disk collector: claims\<close>

text \<open>
  C1, as the code has it. When the usage query of the root file system, the query of
  the I/O counters and the enumeration of the partitions succeed, and each listed
  partition either denies its usage query (\<^verbatim>\<open>PermissionError\<close> or another
  \<^verbatim>\<open>OSError\<close>) or answers it, \<^verbatim>\<open>get_disk_info\<close> returns normally; its
  partitions sequence describes exactly the partitions that answered, in enumeration
  order, each with device, mount point, file system type, total, used and free bytes,
  percent and the three formatted strings; its length is the number listed minus the
  number denied; and a capture whose other collectors succeed returns the snapshot with
  this disk section.
\<close>

theorem partition_isolation:
  assumes "disk_usage h ''/'' = Inr rootfs" "usage_formattable rootfs"
    and "disk_io_counters h = Inr io" "io_formattable io"
    and "disk_partitions h = Inr listed"
    and "\<forall>p \<in> set listed. usage_denied h p \<or> usage_readable h p"
  shows "\<exists>main_disk io_d entries.
           get_disk_info self h =
             Inr (PyDict [(''main_disk'', main_disk), (''io'', io_d),
                          (''partitions'', PyList entries)]) \<and>
           list_all2 (describes_partition h) (filter (usage_readable h) listed) entries \<and>
           length entries = length listed - length (filter (usage_denied h) listed) \<and>
           (\<forall>H cpu_d memory network_d processes.
              host_disk H = h \<and>
              get_cpu_info self (host_cpu H) = Inr cpu_d \<and>
              get_memory_info self (host_virtual_memory H) = Inr memory \<and>
              get_network_info self (host_network H) = Inr network_d \<and>
              get_process_info self (host_process_iter H) 10 = Inr processes \<longrightarrow>
              (\<exists>system. get_all_info self H =
                 Inr (PyDict
                   [(''timestamp'', PyStr (host_now H)), (''system'', system),
                    (''cpu'', cpu_d), (''memory'', memory),
                    (''disk'', PyDict [(''main_disk'', main_disk), (''io'', io_d),
                                       (''partitions'', PyList entries)]),
                    (''network'', network_d), (''processes'', PyList processes)])))"
proof -
  from get_disk_info_result [OF assms, of self] obtain main_disk io_d entries
    where r: "get_disk_info self h =
        Inr (PyDict [(''main_disk'', main_disk), (''io'', io_d), (''partitions'', PyList entries)])"
      "list_all2 (describes_partition h) (filter (usage_readable h) listed) entries"
    by blast
  have len: "length entries = length listed - length (filter (usage_denied h) listed)"
    using list_all2_lengthD [OF r(2)] count_accessible [OF assms(6)] by simp
  have cap: "\<exists>system. get_all_info self H =
                 Inr (PyDict
                   [(''timestamp'', PyStr (host_now H)), (''system'', system),
                    (''cpu'', cpu_d), (''memory'', memory),
                    (''disk'', PyDict [(''main_disk'', main_disk), (''io'', io_d),
                                       (''partitions'', PyList entries)]),
                    (''network'', network_d), (''processes'', PyList processes)])"
    if "host_disk H = h" "get_cpu_info self (host_cpu H) = Inr cpu_d"
      "get_memory_info self (host_virtual_memory H) = Inr memory"
      "get_network_info self (host_network H) = Inr network_d"
      "get_process_info self (host_process_iter H) 10 = Inr processes"
    for H cpu_d memory network_d processes
  proof -
    from r(1) that(1) have "get_disk_info self (host_disk H) =
        Inr (PyDict [(''main_disk'', main_disk), (''io'', io_d), (''partitions'', PyList entries)])"
      by simp
    from get_all_info_success [OF that(2,3) this that(4,5)] show ?thesis .
  qed
  from r len cap show ?thesis by blast
qed

theorem partition_isolation_witness:
  "length sample_partitions = 3 \<and>
   length (filter (usage_denied sample_disk) sample_partitions) = 1 \<and>
   (\<exists>main_disk io_d entries.
      get_disk_info [] sample_disk =
        Inr (PyDict [(''main_disk'', main_disk), (''io'', io_d),
                     (''partitions'', PyList entries)]) \<and>
      length entries = 2) \<and>
   (\<exists>snapshot. get_all_info [] vanishing_host = Inr snapshot)"
proof -
  from partition_isolation [OF sample_disk_facts, of "[]"]
  obtain main_disk io_d entries where
    r: "get_disk_info [] sample_disk =
          Inr (PyDict [(''main_disk'', main_disk), (''io'', io_d), (''partitions'', PyList entries)])"
      "length entries =
         length sample_partitions - length (filter (usage_denied sample_disk) sample_partitions)"
      "\<And>H cpu_d memory network_d processes.
         host_disk H = sample_disk \<and>
         get_cpu_info [] (host_cpu H) = Inr cpu_d \<and>
         get_memory_info [] (host_virtual_memory H) = Inr memory \<and>
         get_network_info [] (host_network H) = Inr network_d \<and>
         get_process_info [] (host_process_iter H) 10 = Inr processes \<Longrightarrow>
         \<exists>snapshot. get_all_info [] H = Inr snapshot"
    by blast
  have net: "\<exists>d. get_network_info [] (host_network vanishing_host) = Inr d"
    using sample_network_result by (simp add: vanishing_host_def)
  then obtain network_d where "get_network_info [] (host_network vanishing_host) = Inr network_d"
    by blast
  with vanishing_host_collectors r(3) [of vanishing_host]
  have "\<exists>snapshot. get_all_info [] vanishing_host = Inr snapshot" by blast
  with r(1,2) sample_disk_counts show ?thesis by simp
qed

text \<open>
  C1 as stated fails when the inaccessible mount is the root: of the two partitions of
  \<open>root_denied_disk\<close> exactly one raises \<^verbatim>\<open>PermissionError\<close> on its usage
  query, yet \<^verbatim>\<open>psutil.disk_usage('/')\<close> on the first line of
  \<^verbatim>\<open>get_disk_info\<close> stands outside the \<^verbatim>\<open>try\<close> and the collector raises.
\<close>

theorem root_denied_counterexample:
  "disk_partitions root_denied_disk = Inr root_denied_partitions \<and>
   length root_denied_partitions = 2 \<and>
   length (filter (usage_denied root_denied_disk) root_denied_partitions) = 1 \<and>
   length (filter (usage_readable root_denied_disk) root_denied_partitions) = 1 \<and>
   get_disk_info [] root_denied_disk = Inl PermissionError"
  by (simp add: get_disk_info_def disk_usage_def usage_denied_def usage_readable_def
      usage_formattable_def formattable_def is_OSError_def sample_defs)

text \<open>
  C6, as the code has it. When the platform exposes no disk I/O counters
  (\<^verbatim>\<open>psutil.disk_io_counters()\<close> returns \<^verbatim>\<open>None\<close>) this is not an error:
  \<^verbatim>\<open>get_disk_info\<close> returns normally, and the io section is a dictionary whose two
  byte counts are the number 0 and whose two formatted strings are \<open>N/A\<close>. The
  byte counts are the same as those of a platform that reports zero counters; only the
  formatted strings tell the two apart.
\<close>

theorem io_counters_unavailable:
  assumes "disk_usage h ''/'' = Inr rootfs" "usage_formattable rootfs"
    and "disk_io_counters h = Inr None"
    and "disk_partitions h = Inr listed"
    and "\<forall>p \<in> set listed. usage_denied h p \<or> usage_readable h p"
  shows "(\<exists>main_disk entries.
            get_disk_info self h =
              Inr (PyDict [(''main_disk'', main_disk), (''io'', io_unavailable),
                           (''partitions'', PyList entries)])) \<and>
         dict_get io_unavailable ''read_bytes'' = Some (PyInt 0) \<and>
         dict_get io_unavailable ''write_bytes'' = Some (PyInt 0) \<and>
         dict_get io_unavailable ''read_bytes_formatted'' = Some (PyStr ''N/A'') \<and>
         dict_get io_unavailable ''write_bytes_formatted'' = Some (PyStr ''N/A'') \<and>
         io_section self (Some \<lparr>read_bytes = 0, write_bytes = 0\<rparr>) =
           Inr (PyDict
             [(''read_bytes'', PyInt 0), (''write_bytes'', PyInt 0),
              (''read_bytes_formatted'', PyStr ''0.00 B''),
              (''write_bytes_formatted'', PyStr ''0.00 B'')])"
proof -
  have io: "io_formattable None" by (simp add: io_formattable_def)
  from get_disk_info_result [OF assms(1,2,3) io assms(4,5), of self]
  have a: "\<exists>main_disk entries.
            get_disk_info self h =
              Inr (PyDict [(''main_disk'', main_disk), (''io'', io_unavailable),
                           (''partitions'', PyList entries)])"
    by (auto simp: io_section_None)
  have z: "format_bytes self (PyInt 0) = Inr ''0.00 B''"
    using format_bytes_small [of 0 self] spec_format_examples(1) by simp
  have b: "io_section self (Some \<lparr>read_bytes = 0, write_bytes = 0\<rparr>) =
           Inr (PyDict
             [(''read_bytes'', PyInt 0), (''write_bytes'', PyInt 0),
              (''read_bytes_formatted'', PyStr ''0.00 B''),
              (''write_bytes_formatted'', PyStr ''0.00 B'')])"
    by (simp add: io_section_def formatted_def z)
  from a b show ?thesis by (simp add: io_unavailable_def)
qed

theorem io_counters_unavailable_witness:
  "disk_io_counters sample_disk = Inr None \<and>
   (\<exists>main_disk entries.
      get_disk_info [] sample_disk =
        Inr (PyDict [(''main_disk'', main_disk), (''io'', io_unavailable),
                     (''partitions'', PyList entries)]))"
  using io_counters_unavailable [OF sample_disk_facts(1,2,3,5,6), of "[]"] sample_disk_facts(3)
  by blast

text \<open>
  C6 as stated fails: without counters the io section is not a null value but a
  dictionary, and its byte counts are the number 0.
\<close>

theorem io_section_counterexample:
  "disk_io_counters sample_disk = Inr None \<and>
   result_field (get_disk_info [] sample_disk) ''io'' =
     Some (PyDict
       [(''read_bytes'', PyInt 0), (''write_bytes'', PyInt 0),
        (''read_bytes_formatted'', PyStr ''N/A''),
        (''write_bytes_formatted'', PyStr ''N/A'')]) \<and>
   result_field (get_disk_info [] sample_disk) ''io'' \<noteq> Some PyNone"
proof -
  have "result_field (get_disk_info [] sample_disk) ''io'' =
     Some (PyDict
       [(''read_bytes'', PyInt 0), (''write_bytes'', PyInt 0),
        (''read_bytes_formatted'', PyStr ''N/A''),
        (''write_bytes_formatted'', PyStr ''N/A'')])"
    by code_simp
  then show ?thesis by (simp add: sample_disk_def)
qed

section \<open>The network collector: claims\<close>

text \<open>
  C7. Network interface filtering: when the total counters and the interface table are
  read, and the per-interface lookup of every interface that is up either yields
  counters or is missing (it returns \<^verbatim>\<open>None\<close>, or fails with \<^verbatim>\<open>KeyError\<close> or
  \<^verbatim>\<open>AttributeError\<close>), \<^verbatim>\<open>get_network_info\<close> returns normally and its
  interfaces sequence describes exactly the interfaces that are up and have counters, in
  order, each with name, speed, MTU, the byte counters and their formatted strings.
  Every interface that is down or whose counters are missing is omitted.
\<close>

theorem interface_filtering:
  assumes "net_io_counters h = Inr (Some total_io)"
    and "formattable (bytes_sent total_io)" "formattable (bytes_recv total_io)"
    and "net_if_stats h = Inr items"
    and "\<forall>item \<in> set items. is_down item \<or> counters_missing h item \<or> counters_present h item"
  shows "\<exists>total entries.
           get_network_info self h =
             Inr (PyDict [(''total'', total), (''interfaces'', PyList entries)]) \<and>
           list_all2 (describes_interface h) (filter (reported h) items) entries \<and>
           (\<forall>item \<in> set items. is_down item \<or> counters_missing h item \<longrightarrow> \<not> reported h item)"
proof -
  from total_section_ok [OF assms(2,3), of self] obtain total
    where t: "total_section self (Some total_io) = Inr total" by blast
  from collect_interfaces_filtered [OF assms(5), of self "[]"] obtain es
    where es: "collect_interfaces self h items [] = Inr es"
      "list_all2 (describes_interface h) (filter (reported h) items) es" by auto
  have r: "get_network_info self h = Inr (PyDict [(''total'', total), (''interfaces'', PyList es)])"
    by (simp add: get_network_info_def assms(1,4) es(1) t)
  have om: "\<forall>item \<in> set items. is_down item \<or> counters_missing h item \<longrightarrow> \<not> reported h item"
    using present_not_missing by (auto simp: reported_def is_down_def)
  from r es(2) om show ?thesis by blast
qed

theorem interface_filtering_witness:
  "\<exists>total lo eth0.
     get_network_info [] sample_network =
       Inr (PyDict [(''total'', total), (''interfaces'', PyList [lo, eth0])]) \<and>
     dict_get lo ''name'' = Some (PyStr ''lo'') \<and>
     dict_get eth0 ''name'' = Some (PyStr ''eth0'')"
proof -
  from interface_filtering [OF sample_network_facts, of "[]"] obtain total entries
    where r: "get_network_info [] sample_network =
        Inr (PyDict [(''total'', total), (''interfaces'', PyList entries)])"
      "list_all2 (describes_interface sample_network)
         (filter (reported sample_network) sample_interfaces) entries" by blast
  from r(2) obtain lo eth0 where e: "entries = [lo, eth0]"
    "describes_interface sample_network (''lo'', \<lparr>isup = True, speed = 0, mtu = 65536\<rparr>) lo"
    "describes_interface sample_network (''eth0'', \<lparr>isup = True, speed = 1000, mtu = 1500\<rparr>) eth0"
    by (auto simp: sample_reported list_all2_Cons1)
  from e(2,3) have "dict_get lo ''name'' = Some (PyStr ''lo'')"
    "dict_get eth0 ''name'' = Some (PyStr ''eth0'')"
    by (auto simp: describes_interface_def interface_fields_def split: sum.splits option.splits)
  with r(1) e(1) show ?thesis by blast
qed

section \<open>The process collector: claims\<close>

lemma list_all2_right_witness:
  "list_all2 P xs ys \<Longrightarrow> y \<in> set ys \<Longrightarrow> \<exists>x \<in> set xs. P x y"
  by (induction rule: list_all2_induct) auto

lemma pid_absent:
  assumes fields: "list_all2 process_fields ps es"
    and sub: "set ps \<subseteq> set procs" and dis: "distinct (map proc_pid procs)"
    and p: "p \<in> set procs" "p \<notin> set ps"
  shows "Some (PyInt (proc_pid p)) \<notin> set (map (\<lambda>d. dict_get d ''pid'') es)"
proof
  assume "Some (PyInt (proc_pid p)) \<in> set (map (\<lambda>d. dict_get d ''pid'') es)"
  then obtain d where d: "d \<in> set es" "dict_get d ''pid'' = Some (PyInt (proc_pid p))" by auto
  from list_all2_right_witness [OF fields d(1)]
  obtain q where q: "q \<in> set ps" "process_fields q d" by blast
  from q(2) d(2) have "proc_pid q = proc_pid p" by (simp add: process_fields_def)
  moreover from q(1) sub have "q \<in> set procs" by blast
  moreover from dis have "inj_on proc_pid (set procs)" by (simp add: distinct_map)
  ultimately have "q = p" using p(1) by (auto dest: inj_onD)
  with q(1) p(2) show False by simp
qed

lemma ranked_subset: "set (ranked top_n procs) \<subseteq> set procs"
  using slice_to_subset [of top_n "sorted_reverse cpu_key procs"]
  by (simp add: ranked_def sorted_reverse_def)

text \<open>
  C2. Process isolation: once the processes are enumerated, none of
  \<^verbatim>\<open>NoSuchProcess\<close>, \<^verbatim>\<open>AccessDenied\<close> and \<^verbatim>\<open>ZombieProcess\<close> ever
  propagates out of \<^verbatim>\<open>get_process_info\<close>. When the creation time of every process
  is rendered without an exception and every detail read either is lost to one of the
  three or returns, the collector returns normally, its records describe exactly the
  selected processes whose detail was read, in order, and a process whose detail read
  was lost appears nowhere in the result.
\<close>

theorem process_isolation:
  "(iter = Inr procs \<and> is_process_gone err \<longrightarrow> get_process_info self iter top_n \<noteq> Inl err) \<and>
   (iter = Inr procs \<and> (\<forall>p \<in> set procs. well_behaved p) \<longrightarrow>
      (\<exists>entries.
         get_process_info self iter top_n = Inr entries \<and>
         list_all2 process_fields (filter detail_read (ranked top_n procs)) entries \<and>
         (\<forall>p. detail_lost p \<longrightarrow> p \<notin> set (filter detail_read (ranked top_n procs))) \<and>
         (distinct (map proc_pid procs) \<longrightarrow>
            (\<forall>p \<in> set procs. detail_lost p \<longrightarrow>
               Some (PyInt (proc_pid p)) \<notin> set (map (\<lambda>d. dict_get d ''pid'') entries)))))"
proof (intro conjI impI)
  assume "iter = Inr procs \<and> is_process_gone err"
  then show "get_process_info self iter top_n \<noteq> Inl err"
    using get_process_info_never_gone by blast
next
  assume a: "iter = Inr procs \<and> (\<forall>p \<in> set procs. well_behaved p)"
  then have i: "iter = Inr procs" and w: "\<forall>p \<in> set procs. well_behaved p" by simp_all
  from get_process_info_result [OF i w, of self top_n] obtain es
    where es: "get_process_info self iter top_n = Inr es"
      "list_all2 process_fields (filter detail_read (ranked top_n procs)) es" by blast
  have lost: "\<forall>p. detail_lost p \<longrightarrow> p \<notin> set (filter detail_read (ranked top_n procs))"
    using lost_not_read by auto
  have pids: "\<forall>p \<in> set procs. detail_lost p \<longrightarrow>
      Some (PyInt (proc_pid p)) \<notin> set (map (\<lambda>d. dict_get d ''pid'') es)"
    if dis: "distinct (map proc_pid procs)"
  proof (intro ballI impI)
    fix p assume p: "p \<in> set procs" "detail_lost p"
    have sub: "set (filter detail_read (ranked top_n procs)) \<subseteq> set procs"
      using ranked_subset [of top_n procs] by auto
    from lost p(2) have "p \<notin> set (filter detail_read (ranked top_n procs))" by blast
    from pid_absent [OF es(2) sub dis p(1) this]
    show "Some (PyInt (proc_pid p)) \<notin> set (map (\<lambda>d. dict_get d ''pid'') es)" .
  qed
  from es lost pids
  show "\<exists>entries.
         get_process_info self iter top_n = Inr entries \<and>
         list_all2 process_fields (filter detail_read (ranked top_n procs)) entries \<and>
         (\<forall>p. detail_lost p \<longrightarrow> p \<notin> set (filter detail_read (ranked top_n procs))) \<and>
         (distinct (map proc_pid procs) \<longrightarrow>
            (\<forall>p \<in> set procs. detail_lost p \<longrightarrow>
               Some (PyInt (proc_pid p)) \<notin> set (map (\<lambda>d. dict_get d ''pid'') entries)))"
    by blast
qed

lemma sample_pids: "distinct (map proc_pid sample_processes)"
  by (simp add: sample_defs)

lemma sample_selected:
  "filter detail_read (ranked 10 sample_processes) = [busy_process, idle_process]"
  by (simp add: ranked_def slice_to_def sample_ranking sample_detail)

theorem process_isolation_witness:
  "detail_lost vanished_process \<and>
   get_process_info [] (Inr sample_processes) 10 \<noteq> Inl NoSuchProcess \<and>
   (\<exists>busy idle.
      get_process_info [] (Inr sample_processes) 10 = Inr [busy, idle] \<and>
      dict_get busy ''pid'' = Some (PyInt 10) \<and>
      dict_get idle ''pid'' = Some (PyInt 12) \<and>
      Some (PyInt (proc_pid vanished_process)) \<notin> set (map (\<lambda>d. dict_get d ''pid'') [busy, idle]))"
proof -
  note t = process_isolation [of "Inr sample_processes" sample_processes _ "[]" 10]
  have g: "is_process_gone NoSuchProcess" by (simp add: is_process_gone_def)
  from t [of NoSuchProcess] g
  have a: "get_process_info [] (Inr sample_processes) 10 \<noteq> Inl NoSuchProcess" by blast
  from t [of NoSuchProcess] sample_processes_facts sample_pids obtain entries where
    e: "get_process_info [] (Inr sample_processes) 10 = Inr entries"
      "list_all2 process_fields (filter detail_read (ranked 10 sample_processes)) entries"
      "\<forall>p \<in> set sample_processes. detail_lost p \<longrightarrow>
         Some (PyInt (proc_pid p)) \<notin> set (map (\<lambda>d. dict_get d ''pid'') entries)"
    by blast
  from e(2) obtain busy idle where l: "entries = [busy, idle]"
    "process_fields busy_process busy" "process_fields idle_process idle"
    by (auto simp: sample_selected list_all2_Cons1)
  from l(2,3) have p: "dict_get busy ''pid'' = Some (PyInt 10)" "dict_get idle ''pid'' = Some (PyInt 12)"
    by (simp_all add: process_fields_def sample_defs)
  have "vanished_process \<in> set sample_processes" by (simp add: sample_processes_def)
  with e(3) sample_detail(1)
  have "Some (PyInt (proc_pid vanished_process)) \<notin> set (map (\<lambda>d. dict_get d ''pid'') entries)"
    by blast
  with a e(1) l(1) p sample_detail(1) show ?thesis by blast
qed

text \<open>
  C3. Process ranking: for a non-negative \<open>top_n\<close> the collector reads the detail
  of the first \<open>top_n\<close> processes of the ranking, and the ranking is the enumeration
  sorted descending by \<^verbatim>\<open>cpu_percent\<close>, an absent reading counting as 0, equal
  keys keeping their enumeration order. The records returned describe those of the first
  \<open>top_n\<close> whose detail was read (all of them when no detail read is lost), in the
  order of the ranking: their keys descend and they are at most \<open>top_n\<close>.
\<close>

theorem process_ranking:
  assumes "iter = Inr procs" "\<forall>p \<in> set procs. well_behaved p" "0 \<le> top_n"
  shows "\<exists>entries.
           get_process_info self iter top_n = Inr entries \<and>
           list_all2 process_fields
             (filter detail_read (take (nat top_n) (sorted_reverse cpu_key procs))) entries \<and>
           ((\<forall>p \<in> set procs. detail_read p) \<longrightarrow>
              list_all2 process_fields (take (nat top_n) (sorted_reverse cpu_key procs)) entries) \<and>
           descending cpu_key (sorted_reverse cpu_key procs) \<and>
           mset (sorted_reverse cpu_key procs) = mset procs \<and>
           (\<forall>k. filter (\<lambda>p. cpu_key p = k) (sorted_reverse cpu_key procs) =
                 filter (\<lambda>p. cpu_key p = k) procs) \<and>
           (\<forall>p. proc_cpu_percent p = None \<longrightarrow> cpu_key p = 0) \<and>
           descending entry_cpu_key entries \<and>
           length entries \<le> nat top_n"
proof -
  let ?top = "take (nat top_n) (sorted_reverse cpu_key procs)"
  have rk: "ranked top_n procs = ?top"
    using assms(3) by (simp add: ranked_def slice_to_take)
  from get_process_info_result [OF assms(1,2), of self top_n] obtain es
    where es: "get_process_info self iter top_n = Inr es"
      "list_all2 process_fields (filter detail_read ?top) es" by (auto simp: rk)
  have all: "list_all2 process_fields ?top es" if "\<forall>p \<in> set procs. detail_read p"
  proof -
    have "set ?top \<subseteq> set procs" using ranked_subset [of top_n procs] by (simp add: rk)
    with that have "filter detail_read ?top = ?top" by (auto simp: filter_id_conv)
    with es(2) show ?thesis by simp
  qed
  have d1: "descending cpu_key (sorted_reverse cpu_key procs)"
    by (rule sorted_reverse_descending)
  then have "descending cpu_key (filter detail_read ?top)"
    by (intro descending_filter descending_take)
  from descending_entries [OF es(2) this] have d2: "descending entry_cpu_key es" .
  have "length es = length (filter detail_read ?top)"
    using list_all2_lengthD [OF es(2)] by simp
  also have "\<dots> \<le> length ?top" by (rule length_filter_le)
  also have "\<dots> \<le> nat top_n" by simp
  finally have len: "length es \<le> nat top_n" .
  have none: "\<forall>p. proc_cpu_percent p = None \<longrightarrow> cpu_key p = 0"
    by (simp add: cpu_key_def)
  from es all d1 d2 len none sorted_reverse_mset [of cpu_key procs]
    sorted_reverse_stable [of cpu_key _ procs]
  show ?thesis by blast
qed

theorem process_ranking_witness:
  "sorted_reverse cpu_key sample_processes = [vanished_process, busy_process, idle_process] \<and>
   (\<exists>entries.
      get_process_info [] (Inr sample_processes) 2 = Inr entries \<and>
      list_all2 process_fields [busy_process] entries \<and>
      length entries \<le> nat 2)"
proof -
  have top: "0 \<le> (2::int)" by simp
  from process_ranking [OF refl sample_processes_facts top, of "[]"] obtain entries where
    e: "get_process_info [] (Inr sample_processes) 2 = Inr entries"
      "list_all2 process_fields
         (filter detail_read (take (nat 2) (sorted_reverse cpu_key sample_processes))) entries"
      "length entries \<le> nat 2" by blast
  have "filter detail_read (take (nat 2) (sorted_reverse cpu_key sample_processes)) = [busy_process]"
    by (simp add: sample_ranking sample_detail numeral_2_eq_2)
  with e sample_ranking show ?thesis by auto
qed

text \<open>
  C5, as the code has it. A capture that returns has one process record for each of the
  first \<open>min(10, total)\<close> processes of the ranking whose loop body emitted a record:
  the processes sequence is never longer than \<open>min(10, total)\<close>, and is that long
  exactly when no selected process was dropped. The cpu section carries
  \<^verbatim>\<open>cpu_count\<close> and \<^verbatim>\<open>per_cpu\<close> as \<^verbatim>\<open>psutil\<close> returned them, one
  reading per reading and none added or dropped, so the length of \<^verbatim>\<open>per_cpu\<close>
  equals \<^verbatim>\<open>cpu_count\<close> exactly when \<^verbatim>\<open>psutil.cpu_count()\<close> returned the
  number of per-CPU readings, and never when it returned \<^verbatim>\<open>None\<close>.
\<close>

theorem snapshot_shape:
  assumes "get_all_info self H = Inr snapshot"
  shows "\<exists>procs entries cpu_d count per_cpu readings.
           host_process_iter H = Inr procs \<and>
           dict_get snapshot ''processes'' = Some (PyList entries) \<and>
           length entries = length (filter (entry_emitted self) (ranked 10 procs)) \<and>
           length entries \<le> min 10 (length procs) \<and>
           (length entries = min 10 (length procs) \<longleftrightarrow>
              (\<forall>p \<in> set (ranked 10 procs). entry_emitted self p)) \<and>
           dict_get snapshot ''cpu'' = Some cpu_d \<and>
           cpu_count (host_cpu H) = Inr count \<and>
           cpu_percent_percpu (host_cpu H) = Inr per_cpu \<and>
           dict_get cpu_d ''cpu_count'' = Some (case count of None \<Rightarrow> PyNone | Some c \<Rightarrow> PyInt c) \<and>
           dict_get cpu_d ''per_cpu'' = Some (PyList (map (\<lambda>x. PyFloat (Finite x)) per_cpu)) \<and>
           dict_get cpu_d ''per_cpu'' = Some (PyList readings) \<and>
           length readings = length per_cpu \<and>
           (dict_get cpu_d ''cpu_count'' = Some (PyInt (int (length readings))) \<longleftrightarrow>
              count = Some (int (length per_cpu))) \<and>
           (count = None \<longrightarrow> dict_get cpu_d ''cpu_count'' = Some PyNone)"
proof -
  from get_all_info_parts [OF assms] obtain system cpu_d memory disk_d network_d processes
    where parts: "get_cpu_info self (host_cpu H) = Inr cpu_d"
      "get_process_info self (host_process_iter H) 10 = Inr processes"
      "snapshot = PyDict
             [(''timestamp'', PyStr (host_now H)), (''system'', system), (''cpu'', cpu_d),
              (''memory'', memory), (''disk'', disk_d), (''network'', network_d),
              (''processes'', PyList processes)]"
    by blast
  from get_process_info_success [OF parts(2)] obtain procs
    where procs: "host_process_iter H = Inr procs"
      "length processes = length (filter (entry_emitted self) (ranked 10 procs))" by blast
  from get_cpu_info_success [OF parts(1)] obtain count per_cpu
    where c: "cpu_count (host_cpu H) = Inr count" "cpu_percent_percpu (host_cpu H) = Inr per_cpu"
      "dict_get cpu_d ''cpu_count'' = Some (case count of None \<Rightarrow> PyNone | Some c \<Rightarrow> PyInt c)"
      "dict_get cpu_d ''per_cpu'' = Some (PyList (map (\<lambda>x. PyFloat (Finite x)) per_cpu))"
    by blast
  define readings where "readings = map (\<lambda>x. PyFloat (Finite x)) per_cpu"
  have r: "dict_get cpu_d ''per_cpu'' = Some (PyList readings)" "length readings = length per_cpu"
    by (simp_all add: readings_def c(4))
  have agree: "dict_get cpu_d ''cpu_count'' = Some (PyInt (int (length readings))) \<longleftrightarrow>
      count = Some (int (length per_cpu))"
    by (cases count) (simp_all add: c(3) r(2))
  have undetermined: "count = None \<longrightarrow> dict_get cpu_d ''cpu_count'' = Some PyNone"
    by (simp add: c(3))
  have lr: "length (ranked 10 procs) = min 10 (length procs)"
    using length_ranked [of 10 procs] by simp
  have le: "length processes \<le> min 10 (length procs)"
    unfolding procs(2) lr [symmetric] by simp
  have eq: "length processes = min 10 (length procs) \<longleftrightarrow>
              (\<forall>p \<in> set (ranked 10 procs). entry_emitted self p)"
    unfolding procs(2) lr [symmetric] by (rule length_filter_eq_iff)
  have f: "dict_get snapshot ''processes'' = Some (PyList processes)"
    "dict_get snapshot ''cpu'' = Some cpu_d"
    by (simp_all add: parts(3))
  from procs f le eq c r agree undetermined show ?thesis by blast
qed

lemma sample_collectors:
  "get_cpu_info [] sample_cpu =
     Inr (PyDict
       [(''cpu_percent'', PyFloat (Finite (Double False 25 (- 1)))),
        (''cpu_count'', PyInt 2), (''cpu_freq'', PyStr ''N/A''),
        (''per_cpu'', PyList [PyFloat (Finite (Double False 25 0)),
                              PyFloat (Finite (Double False 0 0))])])"
  "get_memory_info [] (Inr sample_memory) =
     Inr (PyDict
       [(''total'', PyInt 4096), (''available'', PyInt 1024), (''used'', PyInt 3072),
        (''percent'', PyFloat (Finite (Double False 75 0))),
        (''total_formatted'', PyStr ''4.00 KB''),
        (''available_formatted'', PyStr ''1.00 KB''),
        (''used_formatted'', PyStr ''3.00 KB'')])"
  by code_simp+

lemma capture_returns:
  assumes "host_cpu H = sample_cpu" "host_virtual_memory H = Inr sample_memory"
    and "host_disk H = sample_disk" "host_network H = sample_network"
    and "host_process_iter H = Inr procs" "\<forall>p \<in> set procs. well_behaved p"
  shows "\<exists>snapshot. get_all_info [] H = Inr snapshot"
proof -
  from get_disk_info_result [OF sample_disk_facts, of "[]"] obtain disk_d
    where d: "get_disk_info [] (host_disk H) = Inr disk_d" by (auto simp: assms(3))
  from get_process_info_result [OF assms(5,6), of "[]" 10] obtain processes
    where p: "get_process_info [] (host_process_iter H) 10 = Inr processes" by blast
  have c: "get_cpu_info [] (host_cpu H) = Inr (PyDict
       [(''cpu_percent'', PyFloat (Finite (Double False 25 (- 1)))),
        (''cpu_count'', PyInt 2), (''cpu_freq'', PyStr ''N/A''),
        (''per_cpu'', PyList [PyFloat (Finite (Double False 25 0)),
                              PyFloat (Finite (Double False 0 0))])])"
    by (simp only: assms(1) sample_collectors(1))
  have m: "get_memory_info [] (host_virtual_memory H) = Inr (PyDict
       [(''total'', PyInt 4096), (''available'', PyInt 1024), (''used'', PyInt 3072),
        (''percent'', PyFloat (Finite (Double False 75 0))),
        (''total_formatted'', PyStr ''4.00 KB''),
        (''available_formatted'', PyStr ''1.00 KB''),
        (''used_formatted'', PyStr ''3.00 KB'')])"
    by (simp only: assms(2) sample_collectors(2))
  from sample_network_result obtain network_d
    where n: "get_network_info [] (host_network H) = Inr network_d" by (simp add: assms(4))
  from get_all_info_success [OF c m d n p] show ?thesis by blast
qed

lemma emitted_iff_read:
  assumes "well_behaved p"
  shows "entry_emitted self p \<longleftrightarrow> detail_read p"
proof
  assume e: "entry_emitted self p"
  show "detail_read p"
  proof (rule ccontr)
    assume "\<not> detail_read p"
    with assms have "create_time_known p" "detail_lost p" by (simp_all add: well_behaved_def)
    from process_entry_lost [OF this, of self] e show False
      by (auto simp: entry_emitted_def)
  qed
next
  assume "detail_read p"
  with assms have "create_time_known p" "detail_read p" by (simp_all add: well_behaved_def)
  from process_entry_read [OF this, of self] show "entry_emitted self p"
    by (auto simp: entry_emitted_def)
qed

lemma emitted_ranked:
  assumes "\<forall>p \<in> set procs. well_behaved p"
  shows "filter (entry_emitted self) (ranked n procs) = filter detail_read (ranked n procs)"
proof (rule filter_cong [OF refl])
  fix p assume "p \<in> set (ranked n procs)"
  with ranked_subset [of n procs] assms have "well_behaved p" by blast
  then show "entry_emitted self p = detail_read p" by (rule emitted_iff_read)
qed

lemma crowd_facts:
  "length crowd = 12"
  "\<forall>p \<in> set crowd. well_behaved p"
  "\<forall>p \<in> set crowd. detail_read p"
  by (simp_all add: crowd_def crowd_member_def well_behaved_def create_time_known_def
      create_time_value_def truthy_float_def detail_lost_def detail_read_def formattable_def)

theorem snapshot_shape_witness:
  "length crowd = 12 \<and>
   (\<exists>snapshot entries cpu_d readings.
      get_all_info [] crowded_host = Inr snapshot \<and>
      dict_get snapshot ''processes'' = Some (PyList entries) \<and>
      length entries = 10 \<and>
      dict_get snapshot ''cpu'' = Some cpu_d \<and>
      dict_get cpu_d ''per_cpu'' = Some (PyList readings) \<and>
      length readings = 2 \<and>
      dict_get cpu_d ''cpu_count'' = Some (PyInt 2)) \<and>
   length sample_processes = 3 \<and>
   (\<exists>snapshot entries.
      get_all_info [] sample_host = Inr snapshot \<and>
      dict_get snapshot ''processes'' = Some (PyList entries) \<and>
      length entries = 2)"
proof -
  have h: "host_cpu crowded_host = sample_cpu" "host_virtual_memory crowded_host = Inr sample_memory"
    "host_disk crowded_host = sample_disk" "host_network crowded_host = sample_network"
    "host_process_iter crowded_host = Inr crowd"
    by (simp_all add: crowded_host_def)
  from capture_returns [OF h crowd_facts(2)] obtain snapshot
    where s: "get_all_info [] crowded_host = Inr snapshot" by blast
  from snapshot_shape [OF s] obtain procs entries cpu_d count per_cpu readings where
    e: "host_process_iter crowded_host = Inr procs"
      "dict_get snapshot ''processes'' = Some (PyList entries)"
      "length entries = length (filter (entry_emitted []) (ranked 10 procs))"
      "dict_get snapshot ''cpu'' = Some cpu_d"
      "cpu_count (host_cpu crowded_host) = Inr count"
      "cpu_percent_percpu (host_cpu crowded_host) = Inr per_cpu"
      "dict_get cpu_d ''cpu_count'' = Some (case count of None \<Rightarrow> PyNone | Some c \<Rightarrow> PyInt c)"
      "dict_get cpu_d ''per_cpu'' = Some (PyList readings)"
      "length readings = length per_cpu"
    by blast
  from e(1) h(5) have procs: "procs = crowd" by simp
  have "filter (entry_emitted []) (ranked 10 crowd) = filter detail_read (ranked 10 crowd)"
    using crowd_facts(2) by (rule emitted_ranked)
  also have "\<dots> = ranked 10 crowd"
    using crowd_facts(3) ranked_subset [of 10 crowd] by (auto simp: filter_id_conv)
  finally have "length entries = length (ranked 10 crowd)" using e(3) procs by simp
  then have len: "length entries = 10"
    using length_ranked [of 10 crowd] crowd_facts(1) by simp
  from e(5,6) have "count = Some 2" "length per_cpu = 2"
    by (auto simp: crowded_host_def sample_cpu_def)
  with e(7,9) have cpu: "dict_get cpu_d ''cpu_count'' = Some (PyInt 2)" "length readings = 2"
    by simp_all
  have a: "\<exists>snapshot entries cpu_d readings.
      get_all_info [] crowded_host = Inr snapshot \<and>
      dict_get snapshot ''processes'' = Some (PyList entries) \<and>
      length entries = 10 \<and>
      dict_get snapshot ''cpu'' = Some cpu_d \<and>
      dict_get cpu_d ''per_cpu'' = Some (PyList readings) \<and>
      length readings = 2 \<and>
      dict_get cpu_d ''cpu_count'' = Some (PyInt 2)"
    using s e(2,4,8) len cpu by blast
  have h': "host_cpu sample_host = sample_cpu" "host_virtual_memory sample_host = Inr sample_memory"
    "host_disk sample_host = sample_disk" "host_network sample_host = sample_network"
    "host_process_iter sample_host = Inr sample_processes"
    by (simp_all add: sample_host_def)
  from capture_returns [OF h' sample_processes_facts] obtain snapshot'
    where s': "get_all_info [] sample_host = Inr snapshot'" by blast
  from snapshot_shape [OF s'] obtain procs' entries' where
    e': "host_process_iter sample_host = Inr procs'"
      "dict_get snapshot' ''processes'' = Some (PyList entries')"
      "length entries' = length (filter (entry_emitted []) (ranked 10 procs'))"
    by blast
  from e'(1) h'(5) have procs': "procs' = sample_processes" by simp
  have "filter (entry_emitted []) (ranked 10 sample_processes) =
      filter detail_read (ranked 10 sample_processes)"
    using sample_processes_facts by (rule emitted_ranked)
  with e'(3) procs' have "length entries' = 2" by (simp add: sample_selected)
  with s' e'(2) have b: "\<exists>snapshot entries.
      get_all_info [] sample_host = Inr snapshot \<and>
      dict_get snapshot ''processes'' = Some (PyList entries) \<and>
      length entries = 2"
    by blast
  have "length sample_processes = 3" by (simp add: sample_processes_def)
  with a b crowd_facts(1) show ?thesis by blast
qed

text \<open>
  C5 as stated fails in both halves on \<open>undetermined_host\<close>. Its only process
  exits before its detail read: the capture returns and the processes sequence is empty
  although \<open>min(10, 1) = 1\<close>. And \<^verbatim>\<open>psutil.cpu_count()\<close> returned
  \<^verbatim>\<open>None\<close>, which the code passes on as it is, beside the two per-CPU readings:
  the length of \<^verbatim>\<open>per_cpu\<close> is 2 and \<^verbatim>\<open>cpu_count\<close> is null.
\<close>

theorem snapshot_shape_counterexample:
  "host_process_iter undetermined_host = Inr [vanished_process] \<and>
   min 10 (length [vanished_process]) = 1 \<and>
   result_field (get_all_info [] undetermined_host) ''processes'' = Some (PyList []) \<and>
   length ([] :: pyval list) \<noteq> min 10 (length [vanished_process]) \<and>
   cpu_count (host_cpu undetermined_host) = Inr None \<and>
   result_field (get_all_info [] undetermined_host) ''cpu'' =
     Some (PyDict
       [(''cpu_percent'', PyFloat (Finite (Double False 25 (- 1)))),
        (''cpu_count'', PyNone), (''cpu_freq'', PyStr ''N/A''),
        (''per_cpu'', PyList [PyFloat (Finite (Double False 25 0)),
                              PyFloat (Finite (Double False 0 0))])]) \<and>
   PyNone \<noteq> PyInt 2"
proof -
  have a: "result_field (get_all_info [] undetermined_host) ''processes'' = Some (PyList [])"
    by code_simp
  have b: "result_field (get_all_info [] undetermined_host) ''cpu'' =
     Some (PyDict
       [(''cpu_percent'', PyFloat (Finite (Double False 25 (- 1)))),
        (''cpu_count'', PyNone), (''cpu_freq'', PyStr ''N/A''),
        (''per_cpu'', PyList [PyFloat (Finite (Double False 25 0)),
                              PyFloat (Finite (Double False 0 0))])])"
    by code_simp
  from a b show ?thesis by (simp add: undetermined_host_def undetermined_cpu_def)
qed

text \<open>
  C9, as the code has it. A null \<^verbatim>\<open>cpu_percent\<close> receives sort key 0, the key of
  a zero reading, so the ranking cannot tell the two apart; in the emitted record a null
  or zero \<^verbatim>\<open>memory_percent\<close> is the number 0 and any other reading is rounded to
  one decimal, so that field is never null. The emitted \<^verbatim>\<open>cpu_percent\<close> is the
  reading itself: a null reading is emitted as null.
\<close>

theorem null_coercion:
  "(proc_cpu_percent p = None \<longrightarrow> cpu_key p = 0) \<and>
   (proc_cpu_percent p = Some z \<and> dval z = 0 \<longrightarrow> cpu_key p = 0) \<and>
   (proc_cpu_percent p = None \<and> proc_cpu_percent p' = Some z \<and> dval z = 0 \<longrightarrow>
      cpu_key p = cpu_key p') \<and>
   (proc_memory_percent p = None \<longrightarrow> memory_percent_value p = PyInt 0) \<and>
   (proc_memory_percent p = Some y \<and> dval y = 0 \<longrightarrow> memory_percent_value p = PyInt 0) \<and>
   (proc_memory_percent p = Some y \<and> dval y \<noteq> 0 \<longrightarrow>
      memory_percent_value p = PyFloat (py_round1 y)) \<and>
   memory_percent_value p \<noteq> PyNone \<and>
   (process_entry self p = Inr d \<longrightarrow>
      dict_get d ''memory_percent'' = Some (memory_percent_value p) \<and>
      dict_get d ''cpu_percent'' = Some (opt_float (proc_cpu_percent p))) \<and>
   (proc_cpu_percent p = None \<longrightarrow> opt_float (proc_cpu_percent p) = PyNone)"
proof -
  have e: "dict_get d ''memory_percent'' = Some (memory_percent_value p) \<and>
      dict_get d ''cpu_percent'' = Some (opt_float (proc_cpu_percent p))"
    if "process_entry self p = Inr d"
    using that by (auto simp: process_entry_def and_then_def split: sum.splits)
  have m: "memory_percent_value p \<noteq> PyNone"
    by (simp add: memory_percent_value_def split: option.splits)
  from e m show ?thesis
    by (simp add: cpu_key_def memory_percent_value_def opt_float_def)
qed

theorem null_coercion_witness:
  "proc_cpu_percent idle_process = None \<and> cpu_key idle_process = 0 \<and>
   proc_memory_percent idle_process = None \<and> memory_percent_value idle_process = PyInt 0 \<and>
   opt_float (proc_cpu_percent idle_process) = PyNone"
  using null_coercion [of idle_process _ idle_process _ "[]"]
  by (simp add: idle_process_def)

text \<open>
  C9 as stated fails for \<^verbatim>\<open>cpu_percent\<close>: the record of a process whose reading
  is null carries null, a value distinct from zero.
\<close>

theorem null_cpu_percent_counterexample:
  "proc_cpu_percent idle_process = None \<and>
   process_entry [] idle_process =
     Inr (PyDict
       [(''pid'', PyInt 12), (''name'', PyStr ''idle''), (''username'', PyNone),
        (''cpu_percent'', PyNone), (''memory_percent'', PyInt 0),
        (''memory_rss'', PyStr ''4.00 KB''), (''create_time'', PyStr ''Unknown'')]) \<and>
   PyNone \<noteq> PyInt 0 \<and> PyNone \<noteq> PyFloat (Finite (Double False 0 0))"
proof -
  have "process_entry [] idle_process =
     Inr (PyDict
       [(''pid'', PyInt 12), (''name'', PyStr ''idle''), (''username'', PyNone),
        (''cpu_percent'', PyNone), (''memory_percent'', PyInt 0),
        (''memory_rss'', PyStr ''4.00 KB''), (''create_time'', PyStr ''Unknown'')])"
    by code_simp
  then show ?thesis by (simp add: idle_process_def)
qed

end
